theory Spec2Isabelle
  imports Complex_Main "HOL-Library.Multiset" "HOL-Library.Char_ord" "HOL-Library.List_Lexorder"
begin

section \<open>Common data\<close>

text \<open>
  The exceptions of the two scripts that the modelled fragments can raise, as values.
  \<open>ToolkitError\<close> stands for an exception raised inside an external toolkit call.
\<close>

datatype error =
    ValueError
  | KeyError
  | IndexError
  | TypeError
  | NameError
  | FileNotFoundError
  | FileExistsError
  | Fatal
  | UndefinedStereochemistryError
  | ToolkitError

text \<open>
  A conformer as the reader returns it: its SD tags (tag name and text, in file order) and
  an opaque structure handle. \<open>OEGetSDData\<close> returns the text of the first tag of that
  name and the empty string when there is none.
\<close>

record 's conf =
  sd_data :: "(string \<times> string) list"
  coords :: 's

definition OEGetSDData :: "'s conf \<Rightarrow> string \<Rightarrow> string" where
  "OEGetSDData c tag = (case map_of (sd_data c) tag of None \<Rightarrow> [] | Some v \<Rightarrow> v)"

text \<open>
  The values of \<open>mols_all\<close> and \<open>mols_out\<close> are the dictionaries
  \<^verbatim>\<open>{'structure': ...}\<close> and \<^verbatim>\<open>{'metric': value, 'structure': ...}\<close>:
  a missing \<open>metric\<close> key is \<open>None\<close>; the field \<open>mol_structure\<close> is the key \<open>structure\<close>.
\<close>

record ('v, 's) mol_entry =
  metric :: "'v option"
  mol_structure :: "'s conf"

text \<open>
  An \<open>OrderedDict\<close> is an association list in insertion order with distinct keys.
  \<open>d[k] = v\<close> replaces the value of an existing key where it stands and appends a new key.
\<close>

fun od_set :: "'k \<Rightarrow> 'a \<Rightarrow> ('k \<times> 'a) list \<Rightarrow> ('k \<times> 'a) list" where
  "od_set k v [] = [(k, v)]"
| "od_set k v ((k', v') # d) =
     (if k' = k then (k, v) # d else (k', v') # od_set k v d)"

section \<open>The read loop of \<open>tailed_parameters\<close>\<close>

record ('v, 's) tail_state =
  all_smiles :: "string list"
  mols_all :: "(string \<times> ('v, 's) mol_entry) list"
  mols_out :: "(string \<times> ('v, 's) mol_entry) list"
  count_all :: nat
  count_out :: nat

definition init_state :: "('v, 's) tail_state" where
  "init_state =
     \<lparr>all_smiles = [], mols_all = [], mols_out = [], count_all = 0, count_out = 0\<rparr>"

text \<open>
  The body of the inner loop. \<open>float\<close> is Python's \<open>float()\<close> on the tag text
  (\<open>None\<close> when it raises \<open>ValueError\<close>); the metric type is any type with a
  comparison, and no law of the order is assumed, so the comparison may be that of IEEE
  doubles, where \<open>nan >= cutoff\<close> is false.
\<close>

definition conf_step ::
  "(string \<Rightarrow> ('v::ord) option) \<Rightarrow> 'v \<Rightarrow> string \<Rightarrow> string \<Rightarrow>
   ('v, 's) tail_state \<Rightarrow> 's conf \<Rightarrow> error + ('v, 's) tail_state" where
  "conf_step float cutoff tag tag_smiles st c =
     (case float (OEGetSDData c tag) of
        None \<Rightarrow> Inl ValueError
      | Some v \<Rightarrow>
          let smiles = OEGetSDData c tag_smiles;
              st1 = (if v \<ge> cutoff
                     then st\<lparr>mols_out := od_set smiles \<lparr>metric = Some v, mol_structure = c\<rparr> (mols_out st),
                             count_out := count_out st + 1\<rparr>
                     else st)
          in Inr (st1\<lparr>mols_all := od_set smiles \<lparr>metric = None, mol_structure = c\<rparr> (mols_all st1),
                       all_smiles := all_smiles st1 @ [smiles],
                       count_all := count_all st1 + 1\<rparr>))"

fun confs_loop ::
  "(string \<Rightarrow> ('v::ord) option) \<Rightarrow> 'v \<Rightarrow> string \<Rightarrow> string \<Rightarrow>
   ('v, 's) tail_state \<Rightarrow> 's conf list \<Rightarrow> error + ('v, 's) tail_state" where
  "confs_loop float cutoff tag tag_smiles st [] = Inr st"
| "confs_loop float cutoff tag tag_smiles st (c # cs) =
     (case conf_step float cutoff tag tag_smiles st c of
        Inl e \<Rightarrow> Inl e
      | Inr st' \<Rightarrow> confs_loop float cutoff tag tag_smiles st' cs)"

text \<open>A molecule is the list of its conformers (\<open>mol.GetConfs()\<close>).\<close>

fun mols_loop ::
  "(string \<Rightarrow> ('v::ord) option) \<Rightarrow> 'v \<Rightarrow> string \<Rightarrow> string \<Rightarrow>
   ('v, 's) tail_state \<Rightarrow> 's conf list list \<Rightarrow> error + ('v, 's) tail_state" where
  "mols_loop float cutoff tag tag_smiles st [] = Inr st"
| "mols_loop float cutoff tag tag_smiles st (mol # mols) =
     (case confs_loop float cutoff tag tag_smiles st mol of
        Inl e \<Rightarrow> Inl e
      | Inr st' \<Rightarrow> mols_loop float cutoff tag tag_smiles st' mols)"

definition read_loop ::
  "(string \<Rightarrow> ('v::ord) option) \<Rightarrow> 'v \<Rightarrow> string \<Rightarrow> string \<Rightarrow>
   's conf list list \<Rightarrow> error + ('v, 's) tail_state" where
  "read_loop float cutoff tag tag_smiles mols =
     mols_loop float cutoff tag tag_smiles init_state mols"

text \<open>The test of the loop body on one conformer, for stating the results.\<close>

definition is_outlier ::
  "(string \<Rightarrow> ('v::ord) option) \<Rightarrow> 'v \<Rightarrow> string \<Rightarrow> 's conf \<Rightarrow> bool" where
  "is_outlier float cutoff tag c =
     (case float (OEGetSDData c tag) of None \<Rightarrow> False | Some v \<Rightarrow> v \<ge> cutoff)"

text \<open>
  The end-to-end scenario of the specification: four conformers with SMILES A, A, B, C and
  metric texts 2.0, 0.5, 3.0, 0.5, read with the tags of the script's usage example.
  \<open>scenario_float\<close> is Python's \<open>float()\<close> on the three texts that occur.
\<close>

definition scenario_conf :: "string \<Rightarrow> string \<Rightarrow> nat \<Rightarrow> nat conf" where
  "scenario_conf smi txt i =
     \<lparr>sd_data = [(''SMILES QCArchive'', smi), (''RMSD to qcarchive.sdf'', txt)], coords = i\<rparr>"

definition scenario_mols :: "nat conf list list" where
  "scenario_mols =
     [[scenario_conf ''A'' ''2.0'' 1, scenario_conf ''A'' ''0.5'' 2],
      [scenario_conf ''B'' ''3.0'' 3],
      [scenario_conf ''C'' ''0.5'' 4]]"

definition scenario_float :: "string \<Rightarrow> real option" where
  "scenario_float = map_of [(''2.0'', 2), (''0.5'', 1 / 2), (''3.0'', 3)]"


section \<open>Natural sorting of parameter identifiers\<close>

text \<open>
  A string is a list of code points below 256. Among them the pattern \<open>\d\<close> matches the
  digits 0 to 9 only (\<open>isdigit\<close>), while \<open>str.isdigit\<close> also accepts the superscript
  digits at 0xB2, 0xB3 and 0xB9 (\<open>py_isdigit\<close>).
  \<open>re.split(r'(\d+)', text)\<close>: the text before the first digit run, the run, and the
  split of what follows it; a text without a digit is returned whole.
\<close>

definition isdigit :: "char \<Rightarrow> bool" where
  "isdigit c \<longleftrightarrow> CHR ''0'' \<le> c \<and> c \<le> CHR ''9''"

definition py_isdigit :: "char \<Rightarrow> bool" where
  "py_isdigit c \<longleftrightarrow> isdigit c \<or> c = CHR 0xB2 \<or> c = CHR 0xB3 \<or> c = CHR 0xB9"

function re_split_digits :: "string \<Rightarrow> string list" where
  "re_split_digits text =
     (if dropWhile (\<lambda>c. \<not> isdigit c) text = [] then [text]
      else takeWhile (\<lambda>c. \<not> isdigit c) text
           # takeWhile isdigit (dropWhile (\<lambda>c. \<not> isdigit c) text)
           # re_split_digits (dropWhile isdigit (dropWhile (\<lambda>c. \<not> isdigit c) text)))"
  by pat_completeness auto
termination
proof (relation "measure length")
  show "wf (measure length)" by simp
next
  fix s :: string
  assume ne: "dropWhile (\<lambda>c. \<not> isdigit c) s \<noteq> []"
  define r where "r = dropWhile (\<lambda>c. \<not> isdigit c) s"
  have "isdigit (hd r)" using ne hd_dropWhile[of "\<lambda>c. \<not> isdigit c" s] by (simp add: r_def)
  with ne have "length (dropWhile isdigit r) < length r"
    by (cases r) (auto simp: r_def[symmetric] intro: le_imp_less_Suc length_dropWhile_le)
  moreover have "length r \<le> length s" unfolding r_def by (rule length_dropWhile_le)
  ultimately show "(dropWhile isdigit (dropWhile (\<lambda>c. \<not> isdigit c) s), s) \<in> measure length"
    by (simp add: r_def)
qed

declare re_split_digits.simps [simp del]

text \<open>
  The elements of a sort key are Python strings and ints. \<open>atoi\<close> is
  \<open>int(text) if text.isdigit() else text\<close>: \<open>str.isdigit\<close> holds of a text that is not
  empty and whose characters it all accepts; \<open>int()\<close> of such a text is its decimal value
  (\<open>py_int\<close>) when all its characters are digits 0 to 9, and raises \<open>ValueError\<close>
  when one is a superscript digit. The list comprehension of \<open>natural_keys\<close> stops at the
  first piece that raises. The bound that recent interpreters put on the number of digits
  \<open>int()\<close> converts (4300 unless configured otherwise) is left out.
\<close>

datatype key = KStr string | KInt int

definition str_isdigit :: "string \<Rightarrow> bool" where
  "str_isdigit text \<longleftrightarrow> text \<noteq> [] \<and> list_all py_isdigit text"

definition py_int :: "string \<Rightarrow> int" where
  "py_int text = foldl (\<lambda>n c. 10 * n + (int (of_char c) - 48)) 0 text"

definition atoi :: "string \<Rightarrow> error + key" where
  "atoi text =
     (if str_isdigit text
      then (if list_all isdigit text then Inr (KInt (py_int text)) else Inl ValueError)
      else Inr (KStr text))"

fun map_err :: "('a \<Rightarrow> error + 'b) \<Rightarrow> 'a list \<Rightarrow> error + 'b list" where
  "map_err f [] = Inr []"
| "map_err f (x # xs) =
     (case f x of
        Inl e \<Rightarrow> Inl e
      | Inr y \<Rightarrow> (case map_err f xs of Inl e \<Rightarrow> Inl e | Inr ys \<Rightarrow> Inr (y # ys)))"

definition natural_keys :: "string \<Rightarrow> error + key list" where
  "natural_keys text = map_err atoi (re_split_digits text)"

text \<open>
  Python's \<open><\<close> on two key elements raises \<open>TypeError\<close> for a string against an
  int; on two lists it compares the first pair of elements that differ (found with
  \<open>==\<close>, which never raises), and a proper prefix is smaller.
\<close>

fun key_lt :: "key \<Rightarrow> key \<Rightarrow> error + bool" where
  "key_lt (KStr a) (KStr b) = Inr (a < b)"
| "key_lt (KInt a) (KInt b) = Inr (a < b)"
| "key_lt (KStr a) (KInt b) = Inl TypeError"
| "key_lt (KInt a) (KStr b) = Inl TypeError"

fun keys_lt :: "key list \<Rightarrow> key list \<Rightarrow> error + bool" where
  "keys_lt [] [] = Inr False"
| "keys_lt [] (y # ys) = Inr True"
| "keys_lt (x # xs) [] = Inr False"
| "keys_lt (x # xs) (y # ys) = (if x = y then keys_lt xs ys else key_lt x y)"

text \<open>
  \<open>list.sort(key=f)\<close> first computes the key of every element, in list order, so an
  exception of the key function ends the sort before any comparison; it then sorts the
  elements by their keys with a stable comparison sort that uses only \<open><\<close> on the keys.
  The sort is modelled as the stable insertion sort on the pairs of a key and its element:
  a pair is placed before the first later pair whose key is not smaller than its own.
\<close>

fun insort_py :: "key list \<times> 'a \<Rightarrow> (key list \<times> 'a) list \<Rightarrow> error + (key list \<times> 'a) list" where
  "insort_py p [] = Inr [p]"
| "insort_py p (q # qs) =
     (case keys_lt (fst q) (fst p) of
        Inl e \<Rightarrow> Inl e
      | Inr lt \<Rightarrow>
          if lt then (case insort_py p qs of Inl e \<Rightarrow> Inl e | Inr rs \<Rightarrow> Inr (q # rs))
          else Inr (p # q # qs))"

fun sort_pairs :: "(key list \<times> 'a) list \<Rightarrow> error + (key list \<times> 'a) list" where
  "sort_pairs [] = Inr []"
| "sort_pairs (p # ps) =
     (case sort_pairs ps of Inl e \<Rightarrow> Inl e | Inr qs \<Rightarrow> insort_py p qs)"

definition sort_py :: "('a \<Rightarrow> error + key list) \<Rightarrow> 'a list \<Rightarrow> error + 'a list" where
  "sort_py f xs =
     (case map_err f xs of
        Inl e \<Rightarrow> Inl e
      | Inr ks \<Rightarrow>
          (case sort_pairs (zip ks xs) of Inl e \<Rightarrow> Inl e | Inr ps \<Rightarrow> Inr (map snd ps)))"

text \<open>
  For the proofs: a total order on key elements that agrees with \<open>key_lt\<close> on two
  elements of the same kind (strings are put before ints), the shape of a natural key, in
  which strings and ints alternate, and the key of an identifier without superscript
  digits, for which \<open>natural_keys\<close> cannot raise.
\<close>

instantiation key :: linorder
begin

fun less_eq_key :: "key \<Rightarrow> key \<Rightarrow> bool" where
  "less_eq_key (KStr a) (KStr b) \<longleftrightarrow> a \<le> b"
| "less_eq_key (KInt a) (KInt b) \<longleftrightarrow> a \<le> b"
| "less_eq_key (KStr a) (KInt b) \<longleftrightarrow> True"
| "less_eq_key (KInt a) (KStr b) \<longleftrightarrow> False"

definition less_key :: "key \<Rightarrow> key \<Rightarrow> bool" where
  "less_key x y \<longleftrightarrow> x \<le> y \<and> \<not> y \<le> (x::key)"

instance
proof
  fix x y z :: key
  show "x < y \<longleftrightarrow> x \<le> y \<and> \<not> y \<le> x" by (rule less_key_def)
  show "x \<le> x" by (cases x) simp_all
  show "x \<le> y \<Longrightarrow> y \<le> z \<Longrightarrow> x \<le> z" by (cases x; cases y; cases z) auto
  show "x \<le> y \<Longrightarrow> y \<le> x \<Longrightarrow> x = y" by (cases x; cases y) auto
  show "x \<le> y \<or> y \<le> x" by (cases x; cases y) auto
qed

end

fun alternating :: "bool \<Rightarrow> key list \<Rightarrow> bool" where
  "alternating b [] \<longleftrightarrow> True"
| "alternating b (KStr s # ks) \<longleftrightarrow> b \<and> alternating False ks"
| "alternating b (KInt n # ks) \<longleftrightarrow> \<not> b \<and> alternating True ks"

definition plain_atoi :: "string \<Rightarrow> key" where
  "plain_atoi text =
     (if text \<noteq> [] \<and> list_all isdigit text then KInt (py_int text) else KStr text)"

definition plain_keys :: "string \<Rightarrow> key list" where
  "plain_keys text = map plain_atoi (re_split_digits text)"

section \<open>Counting and filtering in \<open>main\<close>\<close>

text \<open>
  The float arithmetic of numpy that \<open>main\<close> uses, as parameters over the type of the
  doubles: the true division of a count by a total (an integer array by a Python integer,
  which gives inf or nan, with a warning and no exception, where the total is zero), the
  division of two doubles, and the test \<open>x != 0\<close> behind \<open>np.nonzero\<close>.
\<close>

record 'f float_ops =
  fl_true_divide :: "nat \<Rightarrow> nat \<Rightarrow> 'f"
  fl_divide :: "'f \<Rightarrow> 'f \<Rightarrow> 'f"
  fl_nonzero :: "'f \<Rightarrow> bool"

text \<open>
  The numpy operations of \<open>main\<close> on one-dimensional arrays: \<open>np.where(a == v)[0]\<close>,
  \<open>np.intersect1d\<close> (sorted, without repetitions), \<open>np.delete\<close>,
  \<open>np.nonzero\<close>, indexing with an index array (also the list comprehension
  \<open>[full_params[i] for i in ...]\<close>) and the elementwise quotient of two arrays, which
  broadcasts an array of length one.
\<close>

definition np_where_eq :: "nat list \<Rightarrow> nat \<Rightarrow> nat list" where
  "np_where_eq xs v = [i \<leftarrow> [0..<length xs]. xs ! i = v]"

definition np_intersect1d :: "nat list \<Rightarrow> nat list \<Rightarrow> nat list" where
  "np_intersect1d a b = sort (remdups [i \<leftarrow> a. i \<in> set b])"

definition np_delete :: "'a list \<Rightarrow> nat list \<Rightarrow> error + 'a list" where
  "np_delete arr obj =
     (if \<forall>i\<in>set obj. i < length arr
      then Inr (map (nth arr) [i \<leftarrow> [0..<length arr]. i \<notin> set obj])
      else Inl IndexError)"

definition np_nonzero :: "'f float_ops \<Rightarrow> 'f list \<Rightarrow> nat list" where
  "np_nonzero ops xs = [i \<leftarrow> [0..<length xs]. fl_nonzero ops (xs ! i)]"

definition take_inds :: "'a list \<Rightarrow> nat list \<Rightarrow> error + 'a list" where
  "take_inds arr inds =
     (if \<forall>i\<in>set inds. i < length arr then Inr (map (nth arr) inds) else Inl IndexError)"

definition np_divide_arrays :: "'f float_ops \<Rightarrow> 'f list \<Rightarrow> 'f list \<Rightarrow> error + 'f list" where
  "np_divide_arrays ops a b =
     (if length a = length b then Inr (map2 (fl_divide ops) a b)
      else if length b = 1 then Inr (map (\<lambda>x. fl_divide ops x (hd b)) a)
      else if length a = 1 then Inr (map (fl_divide ops (hd a)) b)
      else Inl ValueError)"

text \<open>
  \<open>count_mols_by_param\<close>: a parameter dictionary maps an identifier to the molecules
  that use it, here a list of them; a parameter absent from the outlier dictionary counts 0.
\<close>

fun count_mols_by_param ::
  "string list \<Rightarrow> (string \<rightharpoonup> 'm list) \<Rightarrow> (string \<rightharpoonup> 'm list) \<Rightarrow> error + (nat list \<times> nat list)" where
  "count_mols_by_param [] params_id_all params_id_out = Inr ([], [])"
| "count_mols_by_param (p # ps) params_id_all params_id_out =
     (case params_id_all p of
        None \<Rightarrow> Inl KeyError
      | Some ms \<Rightarrow>
          let cnt_all = length ms;
              cnt_out = (case params_id_out p of None \<Rightarrow> 0 | Some os \<Rightarrow> length os)
          in (case count_mols_by_param ps params_id_all params_id_out of
                Inl e \<Rightarrow> Inl e
              | Inr (nmols_cnt_all, nmols_cnt_out) \<Rightarrow>
                  Inr (cnt_all # nmols_cnt_all, cnt_out # nmols_cnt_out)))"

text \<open>
  The three aligned structures of \<open>main\<close>, and its two filtering steps: the removal of
  the parameters with one molecule in both sets, then the removal of the parameters whose
  outlier fraction is zero. \<open>main_ratio\<close> is \<open>main\<close> from the fractions to
  \<open>fraction_ratio\<close>; it returns the structures after each step and the ratio.
  \<open>main_filter\<close> starts from \<open>list(set(params_id_all.keys()))\<close>, in whatever order
  the set gives, and the two dictionaries.
\<close>

record 'f aligned =
  full_params :: "string list"
  fraction_cnt_all :: "'f list"
  fraction_cnt_out :: "'f list"

definition exclude_ones ::
  "string list \<Rightarrow> nat list \<Rightarrow> nat list \<Rightarrow> 'f list \<Rightarrow> 'f list \<Rightarrow> error + 'f aligned" where
  "exclude_ones params nmols_cnt_all nmols_cnt_out frac_all frac_out =
     (let ones_nmols_all = np_where_eq nmols_cnt_all 1;
          ones_nmols_out = np_where_eq nmols_cnt_out 1;
          ones_both = np_intersect1d ones_nmols_all ones_nmols_out
      in case np_delete frac_all ones_both of
           Inl e \<Rightarrow> Inl e
         | Inr fa \<Rightarrow>
             (case np_delete frac_out ones_both of
                Inl e \<Rightarrow> Inl e
              | Inr fo \<Rightarrow>
                  Inr \<lparr>full_params = map (nth params) [i \<leftarrow> [0..<length params]. i \<notin> set ones_both],
                       fraction_cnt_all = fa, fraction_cnt_out = fo\<rparr>))"

definition keep_nonzero :: "'f float_ops \<Rightarrow> 'f aligned \<Rightarrow> error + 'f aligned" where
  "keep_nonzero ops a =
     (let nonzero_inds = np_nonzero ops (fraction_cnt_out a)
      in case take_inds (fraction_cnt_out a) nonzero_inds of
           Inl e \<Rightarrow> Inl e
         | Inr fo \<Rightarrow>
             (case take_inds (fraction_cnt_all a) nonzero_inds of
                Inl e \<Rightarrow> Inl e
              | Inr fa \<Rightarrow>
                  (case take_inds (full_params a) nonzero_inds of
                     Inl e \<Rightarrow> Inl e
                   | Inr ps \<Rightarrow>
                       Inr \<lparr>full_params = ps, fraction_cnt_all = fa, fraction_cnt_out = fo\<rparr>)))"

definition main_ratio ::
  "'f float_ops \<Rightarrow> string list \<Rightarrow> nat list \<Rightarrow> nat list \<Rightarrow> nat \<Rightarrow> nat \<Rightarrow>
   error + ('f aligned \<times> 'f aligned \<times> 'f list)" where
  "main_ratio ops params nmols_cnt_all nmols_cnt_out uniq_n_all uniq_n_out =
     (let frac_all = map (\<lambda>n. fl_true_divide ops n uniq_n_all) nmols_cnt_all;
          frac_out = map (\<lambda>n. fl_true_divide ops n uniq_n_out) nmols_cnt_out
      in case exclude_ones params nmols_cnt_all nmols_cnt_out frac_all frac_out of
           Inl e \<Rightarrow> Inl e
         | Inr a1 \<Rightarrow>
             (case keep_nonzero ops a1 of
                Inl e \<Rightarrow> Inl e
              | Inr a2 \<Rightarrow>
                  (case np_divide_arrays ops (fraction_cnt_out a2) (fraction_cnt_all a2) of
                     Inl e \<Rightarrow> Inl e
                   | Inr fraction_ratio \<Rightarrow> Inr (a1, a2, fraction_ratio))))"

definition main_filter ::
  "'f float_ops \<Rightarrow> string list \<Rightarrow> (string \<rightharpoonup> 'm list) \<Rightarrow> (string \<rightharpoonup> 'm list) \<Rightarrow> nat \<Rightarrow> nat \<Rightarrow>
   error + ('f aligned \<times> 'f aligned \<times> 'f list)" where
  "main_filter ops keys_all params_id_all params_id_out uniq_n_all uniq_n_out =
     (case sort_py natural_keys keys_all of
        Inl e \<Rightarrow> Inl e
      | Inr params \<Rightarrow>
          (case count_mols_by_param params params_id_all params_id_out of
             Inl e \<Rightarrow> Inl e
           | Inr (nmols_cnt_all, nmols_cnt_out) \<Rightarrow>
               main_ratio ops params nmols_cnt_all nmols_cnt_out uniq_n_all uniq_n_out))"

text \<open>
  An arithmetic for the examples: a finite number, an infinity or a nan, where the finite
  numbers are the reals, without the rounding of the doubles. A count over a zero total is
  nan for the count 0 and inf otherwise, as in numpy, and neither is zero.
\<close>

datatype npfloat = Fin real | PInf | NInf | NaN

definition true_divide :: "nat \<Rightarrow> nat \<Rightarrow> npfloat" where
  "true_divide n d =
     (if d = 0 then (if n = 0 then NaN else PInf) else Fin (real n / real d))"

fun np_divide :: "npfloat \<Rightarrow> npfloat \<Rightarrow> npfloat" where
  "np_divide NaN y = NaN"
| "np_divide x NaN = NaN"
| "np_divide (Fin a) (Fin b) =
     (if b = 0 then (if a = 0 then NaN else if a > 0 then PInf else NInf) else Fin (a / b))"
| "np_divide (Fin a) PInf = Fin 0"
| "np_divide (Fin a) NInf = Fin 0"
| "np_divide PInf (Fin b) = (if b < 0 then NInf else PInf)"
| "np_divide NInf (Fin b) = (if b < 0 then PInf else NInf)"
| "np_divide PInf PInf = NaN"
| "np_divide PInf NInf = NaN"
| "np_divide NInf PInf = NaN"
| "np_divide NInf NInf = NaN"

definition is_nonzero :: "npfloat \<Rightarrow> bool" where
  "is_nonzero x \<longleftrightarrow> x \<noteq> Fin 0"

definition exact_ops :: "npfloat float_ops" where
  "exact_ops = \<lparr>fl_true_divide = true_divide, fl_divide = np_divide, fl_nonzero = is_nonzero\<rparr>"

text \<open>A small pair of parameter dictionaries with the counts [1, 1, 5] and [1, 0, 1].\<close>

definition example_params_id_all :: "string \<rightharpoonup> nat list" where
  "example_params_id_all = map_of [(''a1'', [1]), (''a2'', [2]), (''b1'', [1, 2, 3, 4, 5])]"

definition example_params_id_out :: "string \<rightharpoonup> nat list" where
  "example_params_id_out = map_of [(''a1'', [1]), (''b1'', [3])]"

section \<open>\<open>get_parameters\<close>\<close>

text \<open>
  The calls of \<open>get_parameters\<close> into the force field toolkit, as parameters:
  loading the force field, \<open>Molecule.from_openeye(mol, allow_undefined_stereo=...)\<close>,
  \<open>Molecule.to_smiles\<close> and \<open>get_molecule_parameterIDs\<close>. A call that raises
  returns \<open>Inl\<close>.
\<close>

record ('s, 'm, 'ff, 'pm, 'pid) toolkit =
  ForceField :: "string \<Rightarrow> error + 'ff"
  from_openeye :: "'s conf \<Rightarrow> bool \<Rightarrow> error + 'm"
  to_smiles :: "'m \<Rightarrow> string"
  get_molecule_parameterIDs :: "'m list \<Rightarrow> 'ff \<Rightarrow> error + ('pm \<times> 'pid)"

text \<open>
  The conversion loop over the dictionary: every structure is converted with
  \<open>allow_undefined_stereo=True\<close>, and the first exception ends the function.
\<close>

fun convert_mols ::
  "('s, 'm, 'ff, 'pm, 'pid) toolkit \<Rightarrow> (string \<times> ('v, 's) mol_entry) list \<Rightarrow> error + 'm list" where
  "convert_mols tk [] = Inr []"
| "convert_mols tk ((key, entry) # rest) =
     (case from_openeye tk (mol_structure entry) True of
        Inl e \<Rightarrow> Inl e
      | Inr off_mol \<Rightarrow>
          (case convert_mols tk rest of
             Inl e \<Rightarrow> Inl e
           | Inr off_mols \<Rightarrow> Inr (off_mol # off_mols)))"

text \<open>
  \<open>dict(pairs)\<close> inserts the pairs in order, \<open>del xs[i]\<close> raises
  \<open>IndexError\<close> out of range, and the duplicates are deleted in the order of
  \<open>sorted(idx_of_duplicates, reverse=True)\<close>.
\<close>

definition py_dict :: "('k \<times> 'a) list \<Rightarrow> ('k \<times> 'a) list" where
  "py_dict pairs = foldl (\<lambda>d (k, v). od_set k v d) [] pairs"

definition py_del :: "'a list \<Rightarrow> nat \<Rightarrow> error + 'a list" where
  "py_del xs i = (if i < length xs then Inr (take i xs @ drop (Suc i) xs) else Inl IndexError)"

fun del_all :: "'a list \<Rightarrow> nat list \<Rightarrow> error + 'a list" where
  "del_all xs [] = Inr xs"
| "del_all xs (i # rest) = (case py_del xs i of Inl e \<Rightarrow> Inl e | Inr xs' \<Rightarrow> del_all xs' rest)"

definition idx_of_duplicates :: "'a list \<Rightarrow> nat list" where
  "idx_of_duplicates iso_smiles =
     [idx \<leftarrow> [0..<length iso_smiles]. iso_smiles ! idx \<in> set (take idx iso_smiles)]"

definition remove_duplicates :: "'m list \<Rightarrow> string list \<Rightarrow> error + 'm list" where
  "remove_duplicates off_mols iso_smiles =
     del_all off_mols (rev (sort (idx_of_duplicates iso_smiles)))"

definition get_parameters ::
  "('s, 'm, 'ff, 'pm, 'pid) toolkit \<Rightarrow> (string \<times> ('v, 's) mol_entry) list \<Rightarrow> string \<Rightarrow>
   error + ('pm \<times> 'pid \<times> (string \<times> string) list)" where
  "get_parameters tk mols_dict ffxml =
     (case ForceField tk ffxml of
        Inl e \<Rightarrow> Inl e
      | Inr ff \<Rightarrow>
          (case convert_mols tk mols_dict of
             Inl e \<Rightarrow> Inl e
           | Inr off_mols \<Rightarrow>
               let iso_smiles = map (to_smiles tk) off_mols;
                   smi_list = map fst mols_dict;
                   smi_dict = py_dict (zip iso_smiles smi_list)
               in (case remove_duplicates off_mols iso_smiles of
                     Inl e \<Rightarrow> Inl e
                   | Inr off_mols' \<Rightarrow>
                       (case get_molecule_parameterIDs tk off_mols' ff of
                          Inl e \<Rightarrow> Inl e
                        | Inr (parameters_by_molecule, parameters_by_ID) \<Rightarrow>
                            Inr (parameters_by_molecule, parameters_by_ID, smi_dict)))))"

text \<open>For stating the result of the deduplication: the first occurrences, in order.\<close>

definition first_occurrences :: "('m \<Rightarrow> string) \<Rightarrow> 'm list \<Rightarrow> 'm list" where
  "first_occurrences ts xs =
     map (nth xs) [i \<leftarrow> [0..<length xs]. ts (xs ! i) \<notin> ts ` set (take i xs)]"


text \<open>
  A stand-in toolkit for the examples: a structure is a canonical SMILES with a flag that
  says whether its stereochemistry is defined, the conversion raises on an undefined
  stereochemistry unless told to allow it, and the parameter assignment returns the SMILES
  of the molecules it was given and their number. \<open>failing_toolkit\<close> also fails to
  convert a structure without atoms, whatever the flag.
\<close>

definition example_toolkit ::
  "(string \<times> bool, string \<times> bool, string, string list, nat) toolkit" where
  "example_toolkit =
     \<lparr>ForceField = (\<lambda>ffxml. Inr ffxml),
      from_openeye = (\<lambda>c allow_undefined_stereo.
         if snd (coords c) \<or> allow_undefined_stereo then Inr (coords c)
         else Inl UndefinedStereochemistryError),
      to_smiles = fst,
      get_molecule_parameterIDs = (\<lambda>off_mols ff. Inr (map fst off_mols, length off_mols))\<rparr>"

definition example_entry :: "string \<Rightarrow> bool \<Rightarrow> (real, string \<times> bool) mol_entry" where
  "example_entry smi stereo =
     \<lparr>metric = None, mol_structure = \<lparr>sd_data = [], coords = (smi, stereo)\<rparr>\<rparr>"

definition example_mols_dict :: "(string \<times> (real, string \<times> bool) mol_entry) list" where
  "example_mols_dict =
     [(''k1'', example_entry ''CCO'' True), (''k2'', example_entry ''CC'' True),
      (''k3'', example_entry ''CCO'' False)]"


definition failing_toolkit ::
  "(string \<times> bool, string \<times> bool, string, string list, nat) toolkit" where
  "failing_toolkit =
     example_toolkit\<lparr>from_openeye := (\<lambda>c allow_undefined_stereo.
        if fst (coords c) = [] then Inl ToolkitError
        else from_openeye example_toolkit c allow_undefined_stereo)\<rparr>"

text \<open>
  A second stand-in, whose parameter assignment returns the very molecules it was given, so
  that a result shows which of several molecules with one SMILES was passed on.
\<close>

definition echo_toolkit ::
  "(string \<times> bool, string \<times> bool, string, (string \<times> bool) list, nat) toolkit" where
  "echo_toolkit =
     \<lparr>ForceField = (\<lambda>ffxml. Inr ffxml),
      from_openeye = (\<lambda>c allow_undefined_stereo.
         if snd (coords c) \<or> allow_undefined_stereo then Inr (coords c)
         else Inl UndefinedStereochemistryError),
      to_smiles = fst,
      get_molecule_parameterIDs = (\<lambda>off_mols ff. Inr (off_mols, length off_mols))\<rparr>"

section \<open>\<open>main\<close> of the minimizer\<close>

text \<open>
  What \<open>main\<close> of the minimizer asks of the file system: whether the input stream
  opens, whether \<open>os.path.exists(outfile)\<close> holds, and whether the output stream opens.
\<close>

record filesystem =
  can_read :: "string \<Rightarrow> bool"
  path_exists :: "string \<Rightarrow> bool"
  can_write :: "string \<Rightarrow> bool"

text \<open>
  The toolkit calls of the loop, as parameters: reading the molecules, perceiving chirality
  and aromaticity, \<open>charge_mol\<close> (\<open>None\<close> when it raises \<open>RuntimeError\<close>), the
  stereochemistry fallback, the conformers, and the three minimizers, each returning the
  records it writes to the output stream (none when it logs a failure and returns).
\<close>

record ('mol, 'chg, 'cnf, 'w) engines =
  GetOEMols :: "string \<Rightarrow> 'mol list"
  perceive :: "'mol \<Rightarrow> 'mol"
  charge_mol :: "'mol \<Rightarrow> 'chg option"
  reperceive_stereo :: "'mol \<Rightarrow> 'mol"
  GetConfs :: "'mol \<Rightarrow> 'cnf list"
  OE3DToInternalStereo :: "'cnf \<Rightarrow> 'cnf"
  charge_conf :: "'chg \<Rightarrow> 'cnf \<Rightarrow> 'cnf"
  min_ffxml :: "'cnf \<Rightarrow> string option \<Rightarrow> 'w list"
  min_mmff94x :: "'cnf \<Rightarrow> bool \<Rightarrow> 'w list"
  min_gaffx :: "'cnf \<Rightarrow> bool \<Rightarrow> 'w list"

text \<open>
  A run of \<open>main\<close>: the exception that ended it, if any, the molecules the loop went
  through, and the records written to the output file.
\<close>

record ('mol, 'w) run =
  raised :: "error option"
  processed :: "'mol list"
  written :: "'w list"

definition minimize_conf ::
  "('mol, 'chg, 'cnf, 'w) engines \<Rightarrow> string option \<Rightarrow> string \<Rightarrow> 'chg \<Rightarrow> 'cnf \<Rightarrow> 'w list" where
  "minimize_conf eng ffxml minimizer chg_mol c =
     (let chg_conf = charge_conf eng chg_mol (OE3DToInternalStereo eng c)
      in (if minimizer = ''ffxml'' then min_ffxml eng chg_conf ffxml else [])
         @ (if minimizer = ''mmff94'' then min_mmff94x eng chg_conf False else [])
         @ (if minimizer = ''mmff94s'' then min_mmff94x eng chg_conf True else [])
         @ (if minimizer = ''gaff'' then min_gaffx eng chg_conf False else [])
         @ (if minimizer = ''gaff2'' then min_gaffx eng chg_conf True else []))"

definition minimize_mol ::
  "('mol, 'chg, 'cnf, 'w) engines \<Rightarrow> string option \<Rightarrow> string \<Rightarrow> 'mol \<Rightarrow> 'w list" where
  "minimize_mol eng ffxml minimizer mol0 =
     (let mol = perceive eng mol0
      in case charge_mol eng mol of
           Some chg_mol \<Rightarrow>
             concat (map (minimize_conf eng ffxml minimizer chg_mol) (GetConfs eng mol))
         | None \<Rightarrow>
             (let mol' = reperceive_stereo eng mol
              in case charge_mol eng mol' of
                   Some chg_mol \<Rightarrow>
                     concat (map (minimize_conf eng ffxml minimizer chg_mol) (GetConfs eng mol'))
                 | None \<Rightarrow> []))"

definition minimize_main ::
  "filesystem \<Rightarrow> ('mol, 'chg, 'cnf, 'w) engines \<Rightarrow> string \<Rightarrow> string \<Rightarrow> string option \<Rightarrow> string \<Rightarrow>
   ('mol, 'w) run" where
  "minimize_main fs eng infile outfile ffxml minimizer =
     (if \<not> can_read fs infile
      then \<lparr>raised = Some FileNotFoundError, processed = [], written = []\<rparr>
      else if path_exists fs outfile
      then \<lparr>raised = Some FileExistsError, processed = [], written = []\<rparr>
      else if \<not> can_write fs outfile
      then \<lparr>raised = Some Fatal, processed = [], written = []\<rparr>
      else let mols = GetOEMols eng infile
           in \<lparr>raised = None, processed = mols,
               written = concat (map (minimize_mol eng ffxml minimizer) mols)\<rparr>)"

text \<open>Engines for the examples: two molecules of two conformers each; the second cannot be charged.\<close>

definition example_engines :: "(nat, nat, nat, nat) engines" where
  "example_engines =
     \<lparr>GetOEMols = (\<lambda>f. [1, 2]), perceive = (\<lambda>m. m),
      charge_mol = (\<lambda>m. if m = 2 then None else Some m), reperceive_stereo = (\<lambda>m. m),
      GetConfs = (\<lambda>m. [10 * m, 10 * m + 1]), OE3DToInternalStereo = (\<lambda>c. c),
      charge_conf = (\<lambda>chg c. c),
      min_ffxml = (\<lambda>c ffxml. [c]), min_mmff94x = (\<lambda>c s. [c]), min_gaffx = (\<lambda>c g. [c])\<rparr>"

section \<open>The command line of the analyzer\<close>

text \<open>
  The namespace that \<open>parse_args\<close> returns. \<open>--rmsd\<close> and \<open>--tfd\<close> are two
  options with \<open>action="store_true"\<close> and default \<open>False\<close>, declared on the parser
  itself and in no mutually exclusive group, so each is set by its own presence on the
  command line. With neither, \<open>metric_type\<close> is never assigned and the call of
  \<open>main\<close> raises \<open>NameError\<close>.
\<close>

record args =
  arg_infile :: string
  arg_ffxml :: string
  arg_cutoff :: real
  arg_tag :: string
  arg_tag_smiles :: string
  arg_rmsd :: bool
  arg_tfd :: bool
  arg_inpickle :: "string option"

definition select_metric_type :: "args \<Rightarrow> error + string" where
  "select_metric_type a =
     (if arg_rmsd a then Inr ''RMSD'' else if arg_tfd a then Inr ''TFD'' else Inl NameError)"

definition main_call ::
  "args \<Rightarrow> error + (string \<times> string \<times> real \<times> string \<times> string \<times> string \<times> string option)" where
  "main_call a =
     (case select_metric_type a of
        Inl e \<Rightarrow> Inl e
      | Inr metric_type \<Rightarrow>
          Inr (arg_infile a, arg_ffxml a, arg_cutoff a, arg_tag a, arg_tag_smiles a, metric_type, arg_inpickle a))"

definition example_args :: "bool \<Rightarrow> bool \<Rightarrow> args" where
  "example_args r t =
     \<lparr>arg_infile = ''refdata_parsley.sdf'', arg_ffxml = ''openff_unconstrained-1.0.0-RC2.offxml'',
      arg_cutoff = 1, arg_tag = ''RMSD to qcarchive.sdf'', arg_tag_smiles = ''SMILES QCArchive'',
      arg_rmsd = r, arg_tfd = t, arg_inpickle = None\<rparr>"

section \<open>Properties of the read loop\<close>

lemma od_set_keys: "fst ` set (od_set k v d) = insert k (fst ` set d)"
  by (induction d) (auto split: if_splits simp: rev_image_eqI)

lemma od_set_subset: "set (od_set k v d) \<subseteq> insert (k, v) (set d)"
  by (induction d) (auto split: if_splits)

lemma od_set_length: "length (od_set k v d) \<le> Suc (length d)"
  by (induction d) auto

lemma od_set_distinct: "distinct (map fst d) \<Longrightarrow> distinct (map fst (od_set k v d))"
proof (induction d)
  case Nil
  then show ?case by simp
next
  case (Cons p d)
  have "fst ` set (od_set k v d) = insert k (fst ` set d)" by (rule od_set_keys)
  with Cons show ?case by (cases p) auto
qed


lemma confs_loop_append:
  "confs_loop f cutoff t ts st (xs @ ys) =
     (case confs_loop f cutoff t ts st xs of Inl e \<Rightarrow> Inl e
      | Inr st' \<Rightarrow> confs_loop f cutoff t ts st' ys)"
  by (induction xs arbitrary: st) (auto split: sum.splits)

lemma mols_loop_concat:
  "mols_loop f cutoff t ts st mols = confs_loop f cutoff t ts st (concat mols)"
  by (induction mols arbitrary: st) (auto simp: confs_loop_append split: sum.splits)

lemma conf_step_Inr:
  assumes "conf_step f cutoff t ts st x = Inr st'"
  shows "\<exists>v. f (OEGetSDData x t) = Some v \<and>
     mols_all st' = od_set (OEGetSDData x ts) \<lparr>metric = None, mol_structure = x\<rparr> (mols_all st) \<and>
     all_smiles st' = all_smiles st @ [OEGetSDData x ts] \<and>
     count_all st' = Suc (count_all st) \<and>
     (if is_outlier f cutoff t x
      then mols_out st' = od_set (OEGetSDData x ts) \<lparr>metric = Some v, mol_structure = x\<rparr> (mols_out st)
           \<and> count_out st' = Suc (count_out st) \<and> v \<ge> cutoff
      else mols_out st' = mols_out st \<and> count_out st' = count_out st)"
  using assms
  by (auto simp: conf_step_def is_outlier_def Let_def split: option.splits if_splits)

lemma conf_step_total:
  "f (OEGetSDData x t) \<noteq> None \<Longrightarrow> \<exists>st'. conf_step f cutoff t ts st x = Inr st'"
  by (auto simp: conf_step_def Let_def split: option.splits)

lemma confs_loop_total:
  "\<forall>x\<in>set cs. f (OEGetSDData x t) \<noteq> None \<Longrightarrow> \<exists>st'. confs_loop f cutoff t ts st cs = Inr st'"
proof (induction cs arbitrary: st)
  case Nil
  then show ?case by simp
next
  case (Cons x cs)
  then obtain st1 where "conf_step f cutoff t ts st x = Inr st1"
    using conf_step_total[where f=f and x=x and t=t and cutoff=cutoff and ts=ts and st=st] by auto
  with Cons show ?case by simp
qed

lemma confs_loop_error:
  "confs_loop f cutoff t ts st cs = Inl e \<Longrightarrow> e = ValueError \<and> (\<exists>x\<in>set cs. f (OEGetSDData x t) = None)"
  by (induction cs arbitrary: st) (auto simp: conf_step_def Let_def split: sum.splits option.splits)

lemma confs_loop_counts:
  "confs_loop f cutoff t ts st cs = Inr st' \<Longrightarrow>
     count_all st' = count_all st + length cs \<and>
     count_out st' = count_out st + length (filter (is_outlier f cutoff t) cs) \<and>
     all_smiles st' = all_smiles st @ map (\<lambda>x. OEGetSDData x ts) cs"
proof (induction cs arbitrary: st)
  case Nil
  then show ?case by simp
next
  case (Cons x cs)
  then obtain st1 where s: "conf_step f cutoff t ts st x = Inr st1"
    and l: "confs_loop f cutoff t ts st1 cs = Inr st'"
    by (auto split: sum.splits)
  from conf_step_Inr[OF s] Cons.IH[OF l] show ?case
    by (auto split: if_splits)
qed

lemma confs_loop_sizes:
  "confs_loop f cutoff t ts st cs = Inr st' \<Longrightarrow>
     length (mols_all st') \<le> length (mols_all st) + length cs \<and>
     length (mols_out st') \<le> length (mols_out st) + length (filter (is_outlier f cutoff t) cs)"
proof (induction cs arbitrary: st)
  case Nil
  then show ?case by simp
next
  case (Cons x cs)
  then obtain st1 where s: "conf_step f cutoff t ts st x = Inr st1"
    and l: "confs_loop f cutoff t ts st1 cs = Inr st'"
    by (auto split: sum.splits)
  from conf_step_Inr[OF s] obtain v where
    a: "mols_all st1 = od_set (OEGetSDData x ts) \<lparr>metric = None, mol_structure = x\<rparr> (mols_all st)"
    and o: "if is_outlier f cutoff t x
      then mols_out st1 = od_set (OEGetSDData x ts) \<lparr>metric = Some v, mol_structure = x\<rparr> (mols_out st)
      else mols_out st1 = mols_out st"
    by (auto split: if_splits)
  have "length (mols_all st1) \<le> Suc (length (mols_all st))"
    unfolding a by (rule od_set_length)
  moreover have "length (mols_out st1) \<le> length (mols_out st) + length (filter (is_outlier f cutoff t) [x])"
    using o od_set_length[of "OEGetSDData x ts" "\<lparr>metric = Some v, mol_structure = x\<rparr>" "mols_out st"]
    by (auto split: if_splits)
  ultimately show ?case using Cons.IH[OF l] by (auto split: if_splits)
qed

lemma confs_loop_keys:
  "confs_loop f cutoff t ts st cs = Inr st' \<Longrightarrow>
     fst ` set (mols_all st') = fst ` set (mols_all st) \<union> (\<lambda>x. OEGetSDData x ts) ` set cs \<and>
     fst ` set (mols_out st') =
       fst ` set (mols_out st) \<union> (\<lambda>x. OEGetSDData x ts) ` {x \<in> set cs. is_outlier f cutoff t x}"
proof (induction cs arbitrary: st)
  case Nil
  then show ?case by simp
next
  case (Cons x cs)
  then obtain st1 where s: "conf_step f cutoff t ts st x = Inr st1"
    and l: "confs_loop f cutoff t ts st1 cs = Inr st'"
    by (auto split: sum.splits)
  from conf_step_Inr[OF s] obtain v where
    a: "mols_all st1 = od_set (OEGetSDData x ts) \<lparr>metric = None, mol_structure = x\<rparr> (mols_all st)"
    and o: "if is_outlier f cutoff t x
      then mols_out st1 = od_set (OEGetSDData x ts) \<lparr>metric = Some v, mol_structure = x\<rparr> (mols_out st)
      else mols_out st1 = mols_out st"
    by (auto split: if_splits)
  have k1: "fst ` set (mols_all st1) = insert (OEGetSDData x ts) (fst ` set (mols_all st))"
    unfolding a by (rule od_set_keys)
  have k2: "fst ` set (mols_out st1) =
       (if is_outlier f cutoff t x then insert (OEGetSDData x ts) (fst ` set (mols_out st))
        else fst ` set (mols_out st))"
    using o by (simp add: od_set_keys split: if_splits)
  from Cons.IH[OF l] have
    i1: "fst ` set (mols_all st') = fst ` set (mols_all st1) \<union> (\<lambda>x. OEGetSDData x ts) ` set cs"
    and i2: "fst ` set (mols_out st') =
       fst ` set (mols_out st1) \<union> (\<lambda>x. OEGetSDData x ts) ` {x \<in> set cs. is_outlier f cutoff t x}"
    by simp_all
  have "fst ` set (mols_all st') = fst ` set (mols_all st) \<union> (\<lambda>x. OEGetSDData x ts) ` set (x # cs)"
    unfolding i1 k1 by auto
  moreover have "fst ` set (mols_out st') =
       fst ` set (mols_out st) \<union> (\<lambda>x. OEGetSDData x ts) ` {y \<in> set (x # cs). is_outlier f cutoff t y}"
    unfolding i2 k2 by auto
  ultimately show ?case by simp
qed

lemma confs_loop_entries:
  "confs_loop f cutoff t ts st cs = Inr st' \<Longrightarrow> (k, e) \<in> set (mols_out st') \<Longrightarrow>
     (k, e) \<in> set (mols_out st) \<or>
     (\<exists>x\<in>set cs. \<exists>v. f (OEGetSDData x t) = Some v \<and> v \<ge> cutoff \<and> k = OEGetSDData x ts \<and>
        e = \<lparr>metric = Some v, mol_structure = x\<rparr>)"
proof (induction cs arbitrary: st)
  case Nil
  then show ?case by simp
next
  case (Cons x cs)
  then obtain st1 where s: "conf_step f cutoff t ts st x = Inr st1"
    and l: "confs_loop f cutoff t ts st1 cs = Inr st'"
    by (auto split: sum.splits)
  from Cons.IH[OF l Cons.prems(2)] show ?case
  proof
    assume in1: "(k, e) \<in> set (mols_out st1)"
    from conf_step_Inr[OF s] obtain v where fv: "f (OEGetSDData x t) = Some v"
      and o: "if is_outlier f cutoff t x
        then mols_out st1 = od_set (OEGetSDData x ts) \<lparr>metric = Some v, mol_structure = x\<rparr> (mols_out st) \<and> v \<ge> cutoff
        else mols_out st1 = mols_out st"
      by (auto split: if_splits)
    show ?thesis
    proof (cases "is_outlier f cutoff t x")
      case True
      with o in1 od_set_subset[of "OEGetSDData x ts" "\<lparr>metric = Some v, mol_structure = x\<rparr>" "mols_out st"]
      have "(k, e) = (OEGetSDData x ts, \<lparr>metric = Some v, mol_structure = x\<rparr>) \<or> (k, e) \<in> set (mols_out st)"
        by auto
      with True o fv show ?thesis by auto
    next
      case False
      with o in1 show ?thesis by simp
    qed
  next
    assume "\<exists>x\<in>set cs. \<exists>v. f (OEGetSDData x t) = Some v \<and> v \<ge> cutoff \<and> k = OEGetSDData x ts \<and>
        e = \<lparr>metric = Some v, mol_structure = x\<rparr>"
    then show ?thesis by auto
  qed
qed

text \<open>
  Claim C1. Whenever every conformer carries a metric that \<open>float()\<close> accepts, the read
  loop returns, and for every cutoff: a SMILES key is in \<open>mols_out\<close> exactly when some
  processed conformer with that SMILES has metric \<open>\<ge> cutoff\<close>; every record stored in
  \<open>mols_out\<close> is that of a processed conformer with metric \<open>\<ge> cutoff\<close> and keeps
  that metric; every processed conformer with metric \<open>\<ge> cutoff\<close> has its key in
  \<open>mols_out\<close>; and the keys of \<open>mols_all\<close> are the SMILES of all conformers.
\<close>

theorem partition_sound_complete:
  assumes "\<forall>c\<in>set (concat mols). float (OEGetSDData c tag) \<noteq> None"
  shows "\<exists>st. read_loop float cutoff tag tag_smiles mols = Inr st \<and>
     (\<forall>k. k \<in> fst ` set (mols_out st) \<longleftrightarrow>
        (\<exists>c\<in>set (concat mols). \<exists>v. float (OEGetSDData c tag) = Some v \<and> v \<ge> cutoff \<and>
           OEGetSDData c tag_smiles = k)) \<and>
     (\<forall>(k, e)\<in>set (mols_out st). \<exists>c\<in>set (concat mols). \<exists>v.
        float (OEGetSDData c tag) = Some v \<and> v \<ge> cutoff \<and> k = OEGetSDData c tag_smiles \<and>
        e = \<lparr>metric = Some v, mol_structure = c\<rparr>) \<and>
     (\<forall>c\<in>set (concat mols). \<forall>v. float (OEGetSDData c tag) = Some v \<and> v \<ge> cutoff \<longrightarrow>
        OEGetSDData c tag_smiles \<in> fst ` set (mols_out st)) \<and>
     fst ` set (mols_all st) = (\<lambda>c. OEGetSDData c tag_smiles) ` set (concat mols)"
proof -
  from confs_loop_total[OF assms] obtain st
    where l: "confs_loop float cutoff tag tag_smiles init_state (concat mols) = Inr st"
    by blast
  have r: "read_loop float cutoff tag tag_smiles mols = Inr st"
    by (simp add: read_loop_def mols_loop_concat l)
  from confs_loop_keys[OF l] have
    ka: "fst ` set (mols_all st) = (\<lambda>c. OEGetSDData c tag_smiles) ` set (concat mols)"
    and ko: "fst ` set (mols_out st) =
       (\<lambda>c. OEGetSDData c tag_smiles) ` {c \<in> set (concat mols). is_outlier float cutoff tag c}"
    by (simp_all add: init_state_def)
  have iff: "\<And>c. is_outlier float cutoff tag c \<longleftrightarrow>
       (\<exists>v. float (OEGetSDData c tag) = Some v \<and> v \<ge> cutoff)"
    by (simp add: is_outlier_def split: option.splits)
  have p1: "\<forall>k. k \<in> fst ` set (mols_out st) \<longleftrightarrow>
        (\<exists>c\<in>set (concat mols). \<exists>v. float (OEGetSDData c tag) = Some v \<and> v \<ge> cutoff \<and>
           OEGetSDData c tag_smiles = k)"
    unfolding ko iff by blast
  have p2: "\<forall>(k, e)\<in>set (mols_out st). \<exists>c\<in>set (concat mols). \<exists>v.
        float (OEGetSDData c tag) = Some v \<and> v \<ge> cutoff \<and> k = OEGetSDData c tag_smiles \<and>
        e = \<lparr>metric = Some v, mol_structure = c\<rparr>"
  proof (clarify)
    fix k e assume "(k, e) \<in> set (mols_out st)"
    from confs_loop_entries[OF l this] show "\<exists>c\<in>set (concat mols). \<exists>v.
        float (OEGetSDData c tag) = Some v \<and> v \<ge> cutoff \<and> k = OEGetSDData c tag_smiles \<and>
        e = \<lparr>metric = Some v, mol_structure = c\<rparr>"
      by (simp add: init_state_def)
  qed
  have p3: "\<forall>c\<in>set (concat mols). \<forall>v. float (OEGetSDData c tag) = Some v \<and> v \<ge> cutoff \<longrightarrow>
        OEGetSDData c tag_smiles \<in> fst ` set (mols_out st)"
    using p1 by blast
  from r p1 p2 p3 ka show ?thesis by blast
qed


lemma scenario_read_loop:
  "read_loop scenario_float 1 ''RMSD to qcarchive.sdf'' ''SMILES QCArchive'' scenario_mols =
     Inr \<lparr>all_smiles = [''A'', ''A'', ''B'', ''C''],
          mols_all = [(''A'', \<lparr>metric = None, mol_structure = scenario_conf ''A'' ''0.5'' 2\<rparr>),
                      (''B'', \<lparr>metric = None, mol_structure = scenario_conf ''B'' ''3.0'' 3\<rparr>),
                      (''C'', \<lparr>metric = None, mol_structure = scenario_conf ''C'' ''0.5'' 4\<rparr>)],
          mols_out = [(''A'', \<lparr>metric = Some 2, mol_structure = scenario_conf ''A'' ''2.0'' 1\<rparr>),
                      (''B'', \<lparr>metric = Some 3, mol_structure = scenario_conf ''B'' ''3.0'' 3\<rparr>)],
          count_all = 4, count_out = 2\<rparr>"
  by (simp add: read_loop_def init_state_def conf_step_def Let_def OEGetSDData_def
      scenario_mols_def scenario_float_def scenario_conf_def)

theorem partition_sound_complete_witness:
  "\<exists>st. read_loop scenario_float 1 ''RMSD to qcarchive.sdf'' ''SMILES QCArchive'' scenario_mols = Inr st \<and>
      fst ` set (mols_out st) = {''A'', ''B''} \<and>
      (\<forall>k. k \<in> fst ` set (mols_out st) \<longleftrightarrow>
        (\<exists>c\<in>set (concat scenario_mols). \<exists>v.
           scenario_float (OEGetSDData c ''RMSD to qcarchive.sdf'') = Some v \<and> v \<ge> 1 \<and>
           OEGetSDData c ''SMILES QCArchive'' = k))"
proof -
  have h: "\<forall>c\<in>set (concat scenario_mols).
      scenario_float (OEGetSDData c ''RMSD to qcarchive.sdf'') \<noteq> None"
    by (simp add: scenario_mols_def scenario_conf_def scenario_float_def OEGetSDData_def
        del: not_None_eq)
  from partition_sound_complete[OF h, of 1 "''SMILES QCArchive''"]
  obtain st where r: "read_loop scenario_float 1 ''RMSD to qcarchive.sdf'' ''SMILES QCArchive'' scenario_mols = Inr st"
    and k: "\<forall>k. k \<in> fst ` set (mols_out st) \<longleftrightarrow>
        (\<exists>c\<in>set (concat scenario_mols). \<exists>v.
           scenario_float (OEGetSDData c ''RMSD to qcarchive.sdf'') = Some v \<and> v \<ge> 1 \<and>
           OEGetSDData c ''SMILES QCArchive'' = k)"
    by (elim exE conjE) (rule that, assumption+)
  from r[unfolded scenario_read_loop] have "mols_out st =
       [(''A'', \<lparr>metric = Some 2, mol_structure = scenario_conf ''A'' ''2.0'' 1\<rparr>),
        (''B'', \<lparr>metric = Some 3, mol_structure = scenario_conf ''B'' ''3.0'' 3\<rparr>)]"
    by (elim sum.inject[THEN iffD1, elim_format]) (erule subst, simp)
  then have ks: "fst ` set (mols_out st) = {''A'', ''B''}" by simp
  show ?thesis
    by (rule exI[of _ st], rule conjI, rule r, rule conjI, rule ks, rule k)
qed

text \<open>
  Claim C3. In the scenario, \<open>mols_all\<close> has the three keys A, B, C, with the second
  conformer stored under A, and \<open>count_all = 4\<close>; \<open>mols_out\<close> has the keys A and B,
  with A keeping the metric 2.0 of the first conformer (the second one, with 0.5, is below
  the cutoff and does not touch it), and \<open>count_out = 2\<close>. In general the counts are the
  number of conformers processed and the number of those at or above the cutoff, so the
  mappings are never larger than the counts and can be smaller.
\<close>

theorem scenario_duplicate_keys:
  "(\<exists>st. read_loop scenario_float 1 ''RMSD to qcarchive.sdf'' ''SMILES QCArchive'' scenario_mols = Inr st \<and>
      map fst (mols_all st) = [''A'', ''B'', ''C''] \<and> count_all st = 4 \<and>
      map_of (mols_all st) ''A'' = Some \<lparr>metric = None, mol_structure = scenario_conf ''A'' ''0.5'' 2\<rparr> \<and>
      mols_out st = [(''A'', \<lparr>metric = Some 2, mol_structure = scenario_conf ''A'' ''2.0'' 1\<rparr>),
                     (''B'', \<lparr>metric = Some 3, mol_structure = scenario_conf ''B'' ''3.0'' 3\<rparr>)] \<and>
      count_out st = 2) \<and>
   (\<forall>float cutoff tag tag_smiles mols st.
      read_loop float cutoff tag tag_smiles (mols :: 's conf list list) = Inr (st :: ('v::ord, 's) tail_state) \<longrightarrow>
        count_all st = length (concat mols) \<and>
        count_out st = length (filter (is_outlier float cutoff tag) (concat mols)) \<and>
        length (mols_all st) \<le> count_all st \<and> length (mols_out st) \<le> count_out st)"
proof -
  have a: "\<exists>st. read_loop scenario_float 1 ''RMSD to qcarchive.sdf'' ''SMILES QCArchive'' scenario_mols = Inr st \<and>
      map fst (mols_all st) = [''A'', ''B'', ''C''] \<and> count_all st = 4 \<and>
      map_of (mols_all st) ''A'' = Some \<lparr>metric = None, mol_structure = scenario_conf ''A'' ''0.5'' 2\<rparr> \<and>
      mols_out st = [(''A'', \<lparr>metric = Some 2, mol_structure = scenario_conf ''A'' ''2.0'' 1\<rparr>),
                     (''B'', \<lparr>metric = Some 3, mol_structure = scenario_conf ''B'' ''3.0'' 3\<rparr>)] \<and>
      count_out st = 2"
    by (simp add: scenario_read_loop)
  have b: "count_all st = length (concat mols) \<and>
        count_out st = length (filter (is_outlier float cutoff tag) (concat mols)) \<and>
        length (mols_all st) \<le> count_all st \<and> length (mols_out st) \<le> count_out st"
    if r: "read_loop float cutoff tag tag_smiles mols = Inr st"
    for float :: "string \<Rightarrow> 'v option" and cutoff tag tag_smiles
      and mols :: "'s conf list list" and st
  proof -
    from r have l: "confs_loop float cutoff tag tag_smiles init_state (concat mols) = Inr st"
      by (simp add: read_loop_def mols_loop_concat)
    from confs_loop_counts[OF l] confs_loop_sizes[OF l] show ?thesis
      by (simp add: init_state_def)
  qed
  from a b show ?thesis by blast
qed


theorem scenario_duplicate_keys_witness:
  "\<exists>st. read_loop scenario_float 1 ''RMSD to qcarchive.sdf'' ''SMILES QCArchive'' scenario_mols = Inr st \<and>
     count_all st = length (concat scenario_mols) \<and> length (mols_all st) < count_all st \<and>
     length (mols_out st) \<le> count_out st"
proof -
  have "\<exists>st. read_loop scenario_float 1 ''RMSD to qcarchive.sdf'' ''SMILES QCArchive'' scenario_mols = Inr st \<and>
      map fst (mols_all st) = [''A'', ''B'', ''C''] \<and> count_all st = 4 \<and>
      map_of (mols_all st) ''A'' = Some \<lparr>metric = None, mol_structure = scenario_conf ''A'' ''0.5'' 2\<rparr> \<and>
      mols_out st = [(''A'', \<lparr>metric = Some 2, mol_structure = scenario_conf ''A'' ''2.0'' 1\<rparr>),
                     (''B'', \<lparr>metric = Some 3, mol_structure = scenario_conf ''B'' ''3.0'' 3\<rparr>)] \<and>
      count_out st = 2"
    by (rule conjunct1[OF scenario_duplicate_keys])
  then obtain st where r: "read_loop scenario_float 1 ''RMSD to qcarchive.sdf'' ''SMILES QCArchive'' scenario_mols = Inr st"
    and m: "map fst (mols_all st) = [''A'', ''B'', ''C'']" and c: "count_all st = 4"
    by (elim exE conjE) (rule that, assumption+)
  have g: "\<forall>float cutoff tag tag_smiles mols st.
      read_loop float cutoff tag tag_smiles (mols :: nat conf list list) = Inr (st :: (real, nat) tail_state) \<longrightarrow>
        count_all st = length (concat mols) \<and>
        count_out st = length (filter (is_outlier float cutoff tag) (concat mols)) \<and>
        length (mols_all st) \<le> count_all st \<and> length (mols_out st) \<le> count_out st"
    by (rule conjunct2[OF scenario_duplicate_keys])
  from g[rule_format, OF r]
  have "count_all st = length (concat scenario_mols)" and "length (mols_out st) \<le> count_out st"
    by simp_all
  moreover from arg_cong[OF m, of length] have "length (mols_all st) = 3" by simp
  ultimately have "read_loop scenario_float 1 ''RMSD to qcarchive.sdf'' ''SMILES QCArchive'' scenario_mols = Inr st \<and>
     count_all st = length (concat scenario_mols) \<and> length (mols_all st) < count_all st \<and>
     length (mols_out st) \<le> count_out st"
    using r c by simp
  then show ?thesis by (rule exI[of _ st])
qed

section \<open>Properties of the natural sort\<close>

lemma key_lt_same_kind:
  "key_lt (KStr a) (KStr b) = Inr (KStr a < KStr b)"
  "key_lt (KInt m) (KInt n) = Inr (KInt m < KInt n)"
  by (auto simp: less_key_def)

lemma keys_lt_alternating:
  "alternating b ka \<Longrightarrow> alternating b kb \<Longrightarrow> keys_lt ka kb = Inr (ka < kb)"
proof (induction ka kb arbitrary: b rule: keys_lt.induct)
  case (4 x xs y ys)
  show ?case
  proof (cases "x = y")
    case True
    with 4 show ?thesis by (cases x) auto
  next
    case False
    with "4.prems" show ?thesis
      by (cases x; cases y) (auto simp: less_key_def)
  qed
qed simp_all

lemma atoi_nondigits: "\<forall>c\<in>set s. \<not> isdigit c \<Longrightarrow> plain_atoi s = KStr s"
  by (cases s) (auto simp: plain_atoi_def)

lemma atoi_digits: "s \<noteq> [] \<Longrightarrow> \<forall>c\<in>set s. isdigit c \<Longrightarrow> plain_atoi s = KInt (py_int s)"
  by (auto simp: plain_atoi_def list_all_iff)

lemma dropWhile_nil_all: "dropWhile P xs = [] \<Longrightarrow> \<forall>x\<in>set xs. P x"
  by (induction xs) (auto split: if_splits)

lemma plain_keys_unfold:
  "plain_keys s =
     (if dropWhile (\<lambda>c. \<not> isdigit c) s = [] then [KStr s]
      else KStr (takeWhile (\<lambda>c. \<not> isdigit c) s)
           # KInt (py_int (takeWhile isdigit (dropWhile (\<lambda>c. \<not> isdigit c) s)))
           # plain_keys (dropWhile isdigit (dropWhile (\<lambda>c. \<not> isdigit c) s)))"
proof (cases "dropWhile (\<lambda>c. \<not> isdigit c) s = []")
  case True
  then have "\<forall>c\<in>set s. \<not> isdigit c" by (rule dropWhile_nil_all)
  then have a: "plain_atoi s = KStr s" by (rule atoi_nondigits)
  have "re_split_digits s = [s]"
    using True by (subst re_split_digits.simps) simp
  then have "plain_keys s = [KStr s]" by (simp add: plain_keys_def a)
  with True show ?thesis by simp
next
  case False
  define r where "r = dropWhile (\<lambda>c. \<not> isdigit c) s"
  define p where "p = takeWhile (\<lambda>c. \<not> isdigit c) s"
  have rne: "r \<noteq> []" using False by (simp add: r_def)
  have d: "isdigit (hd r)" using False hd_dropWhile[of "\<lambda>c. \<not> isdigit c" s] by (simp add: r_def)
  have ne: "takeWhile isdigit r \<noteq> []" using rne d by (cases r) auto
  have "\<forall>c\<in>set (takeWhile isdigit r). isdigit c" by (auto dest: set_takeWhileD)
  with ne have a2: "plain_atoi (takeWhile isdigit r) = KInt (py_int (takeWhile isdigit r))"
    by (rule atoi_digits)
  have "\<forall>c\<in>set p. \<not> isdigit c" unfolding p_def by (auto dest: set_takeWhileD)
  then have a1: "plain_atoi p = KStr p"
    by (rule atoi_nondigits)
  have "re_split_digits s = p # takeWhile isdigit r # re_split_digits (dropWhile isdigit r)"
    unfolding p_def r_def using False by (subst re_split_digits.simps) (simp only: if_False)
  then have "plain_keys s = KStr p # KInt (py_int (takeWhile isdigit r)) # plain_keys (dropWhile isdigit r)"
    unfolding plain_keys_def by (simp only: list.map a1 a2)
  then show ?thesis using False unfolding p_def r_def by (simp only: if_False)
qed

lemma plain_keys_alternating: "alternating True (plain_keys s)"
proof (induction s rule: re_split_digits.induct)
  case (1 s)
  show ?case
  proof (cases "dropWhile (\<lambda>c. \<not> isdigit c) s = []")
    case True
    then show ?thesis by (subst plain_keys_unfold) simp
  next
    case False
    with 1 show ?thesis by (subst plain_keys_unfold) simp
  qed
qed


lemma concat_re_split: "concat (re_split_digits s) = s"
proof (induction s rule: re_split_digits.induct)
  case (1 s)
  define r where "r = dropWhile (\<lambda>c. \<not> isdigit c) s"
  show ?case
  proof (cases "r = []")
    case True
    then show ?thesis by (subst re_split_digits.simps) (simp add: r_def)
  next
    case False
    then have ih: "concat (re_split_digits (dropWhile isdigit r)) = dropWhile isdigit r"
      using 1 by (simp add: r_def)
    have "re_split_digits s =
        takeWhile (\<lambda>c. \<not> isdigit c) s # takeWhile isdigit r # re_split_digits (dropWhile isdigit r)"
      using False by (subst re_split_digits.simps) (simp add: r_def)
    then have "concat (re_split_digits s) =
        takeWhile (\<lambda>c. \<not> isdigit c) s @ (takeWhile isdigit r @ dropWhile isdigit r)"
      by (simp add: ih)
    also have "\<dots> = takeWhile (\<lambda>c. \<not> isdigit c) s @ r" by simp
    also have "\<dots> = s" by (simp add: r_def)
    finally show ?thesis .
  qed
qed

lemma piece_subset: "t \<in> set (re_split_digits s) \<Longrightarrow> set t \<subseteq> set s"
proof -
  assume "t \<in> set (re_split_digits s)"
  then have "set t \<subseteq> set (concat (re_split_digits s))" by auto
  then show ?thesis by (simp only: concat_re_split)
qed

lemma atoi_plain:
  "\<forall>c\<in>set t. py_isdigit c \<longrightarrow> isdigit c \<Longrightarrow> atoi t = Inr (plain_atoi t)"
  by (auto simp: atoi_def plain_atoi_def str_isdigit_def py_isdigit_def list_all_iff)

lemma map_err_Inr: "\<forall>x\<in>set xs. f x = Inr (g x) \<Longrightarrow> map_err f xs = Inr (map g xs)"
  by (induction xs) simp_all

lemma natural_keys_plain:
  assumes "\<forall>c\<in>set s. py_isdigit c \<longrightarrow> isdigit c"
  shows "natural_keys s = Inr (plain_keys s)"
proof -
  have "\<forall>t\<in>set (re_split_digits s). atoi t = Inr (plain_atoi t)"
  proof
    fix t assume "t \<in> set (re_split_digits s)"
    then have "set t \<subseteq> set s" by (rule piece_subset)
    with assms have "\<forall>c\<in>set t. py_isdigit c \<longrightarrow> isdigit c" by blast
    then show "atoi t = Inr (plain_atoi t)" by (rule atoi_plain)
  qed
  then show ?thesis unfolding natural_keys_def plain_keys_def by (rule map_err_Inr)
qed

lemma insort_py_insort_key:
  "alternating True (fst p) \<Longrightarrow> \<forall>q\<in>set qs. alternating True (fst q) \<Longrightarrow>
     insort_py p qs = Inr (insort_key fst p qs)"
  by (induction qs) (auto simp: keys_lt_alternating not_less)

lemma sort_pairs_sort_key:
  "\<forall>q\<in>set ps. alternating True (fst q) \<Longrightarrow> sort_pairs ps = Inr (sort_key fst ps)"
proof (induction ps)
  case Nil
  show ?case by simp
next
  case (Cons p ps)
  then have ih: "sort_pairs ps = Inr (sort_key fst ps)" by simp
  have "insort_py p (sort_key fst ps) = Inr (insort_key fst p (sort_key fst ps))"
    using Cons.prems by (intro insort_py_insort_key) simp_all
  with ih show ?case by simp
qed

lemma insort_decorated:
  "insort_key fst (f x, x) (map (\<lambda>y. (f y, y)) ys) = map (\<lambda>y. (f y, y)) (insort_key f x ys)"
  by (induction ys) simp_all

lemma sort_decorated:
  "sort_key fst (map (\<lambda>y. (f y, y)) xs) = map (\<lambda>y. (f y, y)) (sort_key f xs)"
  by (induction xs) (simp_all add: insort_decorated)

lemma zip_decorated: "zip (map f xs) xs = map (\<lambda>y. (f y, y)) xs"
  by (induction xs) simp_all

lemma sort_py_natural:
  assumes "\<forall>x\<in>set xs. \<forall>c\<in>set x. py_isdigit c \<longrightarrow> isdigit c"
  shows "sort_py natural_keys xs = Inr (sort_key plain_keys xs)"
proof -
  have k: "map_err natural_keys xs = Inr (map plain_keys xs)"
    using assms by (intro map_err_Inr) (simp add: natural_keys_plain)
  have "\<forall>q\<in>set (zip (map plain_keys xs) xs). alternating True (fst q)"
    by (auto simp: zip_decorated plain_keys_alternating)
  then have "sort_pairs (zip (map plain_keys xs) xs) = Inr (sort_key fst (zip (map plain_keys xs) xs))"
    by (rule sort_pairs_sort_key)
  also have "sort_key fst (zip (map plain_keys xs) xs) =
      map (\<lambda>y. (plain_keys y, y)) (sort_key plain_keys xs)"
    by (simp only: zip_decorated sort_decorated)
  finally show ?thesis
    by (simp add: sort_py_def k comp_def)
qed





lemma insort_py_mset: "insort_py p ps = Inr qs \<Longrightarrow> mset qs = add_mset p (mset ps)"
  by (induction ps arbitrary: qs) (auto split: sum.splits if_splits)

lemma sort_pairs_mset: "sort_pairs ps = Inr qs \<Longrightarrow> mset qs = mset ps"
  by (induction ps arbitrary: qs) (auto split: sum.splits dest: insort_py_mset)

lemma map_err_length: "map_err f xs = Inr ys \<Longrightarrow> length ys = length xs"
  by (induction xs arbitrary: ys) (auto split: sum.splits)

lemma sort_py_mset:
  assumes "sort_py f xs = Inr ys"
  shows "mset ys = mset xs"
proof -
  from assms obtain ks ps where k: "map_err f xs = Inr ks"
    and p: "sort_pairs (zip ks xs) = Inr ps" and y: "ys = map snd ps"
    by (auto simp: sort_py_def split: sum.splits)
  have "mset (map snd ps) = image_mset snd (mset ps)" by simp
  also have "\<dots> = image_mset snd (mset (zip ks xs))" by (simp only: sort_pairs_mset[OF p])
  also have "\<dots> = mset (map snd (zip ks xs))" by simp
  also have "map snd (zip ks xs) = xs" using map_err_length[OF k] by simp
  finally show ?thesis by (simp add: y)
qed




section \<open>Properties of the ratio filter\<close>

lemma set_ones_both:
  "set (np_intersect1d (np_where_eq ca v) (np_where_eq co v)) =
     {i. i < length ca \<and> i < length co \<and> ca ! i = v \<and> co ! i = v}"
  by (auto simp: np_intersect1d_def np_where_eq_def)

lemma ones_both_sorted:
  "sorted (np_intersect1d a b) \<and> distinct (np_intersect1d a b)"
  by (simp add: np_intersect1d_def)

lemma np_delete_ok:
  "\<forall>i\<in>set obj. i < length arr \<Longrightarrow>
     np_delete arr obj = Inr (map (nth arr) [i \<leftarrow> [0..<length arr]. i \<notin> set obj])"
  by (simp add: np_delete_def)



lemma take_inds_ok:
  "\<forall>i\<in>set inds. i < length arr \<Longrightarrow> take_inds arr inds = Inr (map (nth arr) inds)"
  by (simp add: take_inds_def)




lemma np_nonzero_bound: "\<forall>i\<in>set (np_nonzero ops xs). i < length xs"
  by (simp add: np_nonzero_def)






lemma count_mols_by_param_ok:
  "set ps \<subseteq> dom pa \<Longrightarrow>
     \<exists>ca co. count_mols_by_param ps pa po = Inr (ca, co) \<and> length ca = length ps \<and> length co = length ps"
proof (induction ps)
  case Nil
  then show ?case by simp
next
  case (Cons p ps)
  then obtain ms where m: "pa p = Some ms" by auto
  from Cons obtain ca co where "count_mols_by_param ps pa po = Inr (ca, co)"
    and "length ca = length ps" and "length co = length ps" by auto
  with m show ?case by (simp add: Let_def)
qed

lemma count_mols_by_param_lengths:
  "count_mols_by_param ps pa po = Inr (ca, co) \<Longrightarrow> length ca = length ps \<and> length co = length ps"
  by (induction ps arbitrary: ca co) (auto simp: Let_def split: option.splits sum.splits)

lemma count_mols_by_param_values:
  "count_mols_by_param ps pa po = Inr (ca, co) \<Longrightarrow> i < length ps \<Longrightarrow>
     pa (ps ! i) \<noteq> None \<and> ca ! i = length (the (pa (ps ! i))) \<and>
     co ! i = (case po (ps ! i) of None \<Rightarrow> 0 | Some os \<Rightarrow> length os)"
proof (induction ps arbitrary: ca co i)
  case Nil
  then show ?case by simp
next
  case (Cons p ps)
  from Cons.prems(1) obtain ms ca' co' where m: "pa p = Some ms"
    and r: "count_mols_by_param ps pa po = Inr (ca', co')"
    and ca: "ca = length ms # ca'"
    and co: "co = (case po p of None \<Rightarrow> 0 | Some os \<Rightarrow> length os) # co'"
    by (auto simp: Let_def split: option.splits sum.splits)
  show ?case
  proof (cases i)
    case 0
    with m ca co show ?thesis by simp
  next
    case (Suc j)
    with Cons.prems(2) have "j < length ps" by simp
    from Cons.IH[OF r this] Suc ca co show ?thesis by simp
  qed
qed

lemma exclude_ones_rel:
  assumes la: "length ca = length params" and lo: "length co = length params"
    and fa: "length fa = length params" and fo: "length fo = length params"
  shows "exclude_ones params ca co fa fo =
     Inr \<lparr>full_params = map (nth params) [i \<leftarrow> [0..<length params]. \<not> (ca ! i = 1 \<and> co ! i = 1)],
          fraction_cnt_all = map (nth fa) [i \<leftarrow> [0..<length params]. \<not> (ca ! i = 1 \<and> co ! i = 1)],
          fraction_cnt_out = map (nth fo) [i \<leftarrow> [0..<length params]. \<not> (ca ! i = 1 \<and> co ! i = 1)]\<rparr>"
proof -
  let ?ob = "np_intersect1d (np_where_eq ca 1) (np_where_eq co 1)"
  have s: "set ?ob = {i. i < length params \<and> ca ! i = 1 \<and> co ! i = 1}"
    using la lo by (simp add: set_ones_both)
  have f: "[i \<leftarrow> [0..<length params]. i \<notin> set ?ob] =
      [i \<leftarrow> [0..<length params]. \<not> (ca ! i = 1 \<and> co ! i = 1)]"
    unfolding s by (rule filter_cong) auto
  have b: "\<forall>i\<in>set ?ob. i < length params" unfolding s by simp
  have d1: "np_delete fa ?ob = Inr (map (nth fa) [i \<leftarrow> [0..<length params]. i \<notin> set ?ob])"
    using np_delete_ok[of ?ob fa] b by (simp only: fa)
  have d2: "np_delete fo ?ob = Inr (map (nth fo) [i \<leftarrow> [0..<length params]. i \<notin> set ?ob])"
    using np_delete_ok[of ?ob fo] b by (simp only: fo)
  show ?thesis
    unfolding exclude_ones_def Let_def d1 d2 f by (simp only: sum.case)
qed

lemma keep_nonzero_rel:
  assumes "length (fraction_cnt_all a) = length (full_params a)"
    and "length (fraction_cnt_out a) = length (full_params a)"
  shows "keep_nonzero ops a =
     Inr \<lparr>full_params = map (nth (full_params a)) (np_nonzero ops (fraction_cnt_out a)),
          fraction_cnt_all = map (nth (fraction_cnt_all a)) (np_nonzero ops (fraction_cnt_out a)),
          fraction_cnt_out = map (nth (fraction_cnt_out a)) (np_nonzero ops (fraction_cnt_out a))\<rparr>"
proof -
  let ?nz = "np_nonzero ops (fraction_cnt_out a)"
  have b: "\<forall>i\<in>set ?nz. i < length (fraction_cnt_out a)" by (rule np_nonzero_bound)
  have t1: "take_inds (fraction_cnt_out a) ?nz = Inr (map (nth (fraction_cnt_out a)) ?nz)"
    using b by (rule take_inds_ok)
  have t2: "take_inds (fraction_cnt_all a) ?nz = Inr (map (nth (fraction_cnt_all a)) ?nz)"
    using b assms by (intro take_inds_ok) simp
  have t3: "take_inds (full_params a) ?nz = Inr (map (nth (full_params a)) ?nz)"
    using b assms by (intro take_inds_ok) simp
  show ?thesis
    unfolding keep_nonzero_def Let_def by (simp only: t1 t2 t3 sum.case)
qed

lemma np_divide_arrays_same_length:
  "length a = length b \<Longrightarrow> \<exists>r. np_divide_arrays ops a b = Inr r \<and> length r = length a"
  by (simp add: np_divide_arrays_def)


lemma example_sorted: "sort_py natural_keys [''b1'', ''a2'', ''a1''] = Inr [''a1'', ''a2'', ''b1'']"
  by code_simp

lemma example_counts:
  "count_mols_by_param [''a1'', ''a2'', ''b1''] example_params_id_all example_params_id_out =
     Inr ([1, 1, 5], [1, 0, 1])"
  by (simp add: example_params_id_all_def example_params_id_out_def)









text \<open>
  Claim C5. Once the sort of the keys of \<open>params_id_all\<close> has returned the parameter
  list, \<open>main\<close> gets through counting and both filtering steps without an exception,
  whatever the float arithmetic; after the first step and again after the second, the
  parameter list and the two fraction arrays have the same length (the ratio too), because
  each step selects the same list of indices from all three. The sort returns for
  identifiers in which every character that \<open>str.isdigit\<close> accepts is a digit 0 to 9.
\<close>

theorem aligned_arrays:
  assumes "set keys_all \<subseteq> dom params_id_all"
  shows "(sort_py natural_keys keys_all = Inr params \<longrightarrow>
     (\<exists>ca co a1 a2 r.
     count_mols_by_param params params_id_all params_id_out = Inr (ca, co) \<and>
     length ca = length params \<and> length co = length params \<and>
     main_filter ops keys_all params_id_all params_id_out uniq_n_all uniq_n_out = Inr (a1, a2, r) \<and>
     length (fraction_cnt_all a1) = length (full_params a1) \<and>
     length (fraction_cnt_out a1) = length (full_params a1) \<and>
     length (fraction_cnt_all a2) = length (full_params a2) \<and>
     length (fraction_cnt_out a2) = length (full_params a2) \<and>
     length r = length (full_params a2) \<and>
     full_params a1 = map (nth params) [i \<leftarrow> [0..<length params]. \<not> (ca ! i = 1 \<and> co ! i = 1)] \<and>
     fraction_cnt_all a1 = map (nth (map (\<lambda>n. fl_true_divide ops n uniq_n_all) ca))
        [i \<leftarrow> [0..<length params]. \<not> (ca ! i = 1 \<and> co ! i = 1)] \<and>
     fraction_cnt_out a1 = map (nth (map (\<lambda>n. fl_true_divide ops n uniq_n_out) co))
        [i \<leftarrow> [0..<length params]. \<not> (ca ! i = 1 \<and> co ! i = 1)] \<and>
     full_params a2 = map (nth (full_params a1)) (np_nonzero ops (fraction_cnt_out a1)) \<and>
     fraction_cnt_all a2 = map (nth (fraction_cnt_all a1)) (np_nonzero ops (fraction_cnt_out a1)) \<and>
     fraction_cnt_out a2 = map (nth (fraction_cnt_out a1)) (np_nonzero ops (fraction_cnt_out a1)))) \<and>
   ((\<forall>x\<in>set keys_all. \<forall>c\<in>set x. py_isdigit c \<longrightarrow> isdigit c) \<longrightarrow>
     (\<exists>sorted_params. sort_py natural_keys keys_all = Inr sorted_params))"
proof (intro conjI impI)
  assume ascii: "\<forall>x\<in>set keys_all. \<forall>c\<in>set x. py_isdigit c \<longrightarrow> isdigit c"
  show "\<exists>sorted_params. sort_py natural_keys keys_all = Inr sorted_params"
    by (rule exI, rule sort_py_natural[OF ascii])
next
  assume sp: "sort_py natural_keys keys_all = Inr params"
  have "set params = set keys_all" by (rule mset_eq_setD[OF sort_py_mset[OF sp]])
  then have "set params \<subseteq> dom params_id_all" using assms by simp
  from count_mols_by_param_ok[OF this, of params_id_out] obtain ca co
    where c: "count_mols_by_param params params_id_all params_id_out = Inr (ca, co)"
      and la: "length ca = length params" and lo: "length co = length params"
    by (elim exE conjE)
  define fa where "fa = map (\<lambda>n. fl_true_divide ops n uniq_n_all) ca"
  define fo where "fo = map (\<lambda>n. fl_true_divide ops n uniq_n_out) co"
  define k1 where "k1 = [i \<leftarrow> [0..<length params]. \<not> (ca ! i = 1 \<and> co ! i = 1)]"
  define a1 where "a1 = \<lparr>full_params = map (nth params) k1,
      fraction_cnt_all = map (nth fa) k1, fraction_cnt_out = map (nth fo) k1\<rparr>"
  define a2 where "a2 = \<lparr>full_params = map (nth (full_params a1)) (np_nonzero ops (fraction_cnt_out a1)),
      fraction_cnt_all = map (nth (fraction_cnt_all a1)) (np_nonzero ops (fraction_cnt_out a1)),
      fraction_cnt_out = map (nth (fraction_cnt_out a1)) (np_nonzero ops (fraction_cnt_out a1))\<rparr>"
  have lfa: "length fa = length params" and lfo: "length fo = length params"
    by (simp_all add: fa_def fo_def la lo)
  have e1: "exclude_ones params ca co fa fo = Inr a1"
    unfolding a1_def k1_def by (rule exclude_ones_rel[OF la lo lfa lfo])
  have l1: "length (fraction_cnt_all a1) = length (full_params a1)"
    "length (fraction_cnt_out a1) = length (full_params a1)"
    by (simp_all add: a1_def)
  have e2: "keep_nonzero ops a1 = Inr a2"
    unfolding a2_def by (rule keep_nonzero_rel[OF l1])
  have l2: "length (fraction_cnt_all a2) = length (full_params a2)"
    "length (fraction_cnt_out a2) = length (full_params a2)"
    by (simp_all add: a2_def)
  from np_divide_arrays_same_length[of "fraction_cnt_out a2" "fraction_cnt_all a2" ops] l2
  obtain r where e3: "np_divide_arrays ops (fraction_cnt_out a2) (fraction_cnt_all a2) = Inr r"
    and lr: "length r = length (full_params a2)"
    by auto
  have mr: "main_ratio ops params ca co uniq_n_all uniq_n_out = Inr (a1, a2, r)"
    unfolding main_ratio_def Let_def
    by (simp only: e1[unfolded fa_def fo_def] e2 e3 sum.case)
  have mf: "main_filter ops keys_all params_id_all params_id_out uniq_n_all uniq_n_out = Inr (a1, a2, r)"
    unfolding main_filter_def by (simp only: sp c sum.case prod.case mr)
  have f1: "full_params a1 = map (nth params) [i \<leftarrow> [0..<length params]. \<not> (ca ! i = 1 \<and> co ! i = 1)]"
    "fraction_cnt_all a1 = map (nth (map (\<lambda>n. fl_true_divide ops n uniq_n_all) ca))
        [i \<leftarrow> [0..<length params]. \<not> (ca ! i = 1 \<and> co ! i = 1)]"
    "fraction_cnt_out a1 = map (nth (map (\<lambda>n. fl_true_divide ops n uniq_n_out) co))
        [i \<leftarrow> [0..<length params]. \<not> (ca ! i = 1 \<and> co ! i = 1)]"
    by (simp_all add: a1_def k1_def fa_def fo_def)
  have f2: "full_params a2 = map (nth (full_params a1)) (np_nonzero ops (fraction_cnt_out a1))"
    "fraction_cnt_all a2 = map (nth (fraction_cnt_all a1)) (np_nonzero ops (fraction_cnt_out a1))"
    "fraction_cnt_out a2 = map (nth (fraction_cnt_out a1)) (np_nonzero ops (fraction_cnt_out a1))"
    by (simp_all add: a2_def)
  show "\<exists>ca co a1 a2 r.
     count_mols_by_param params params_id_all params_id_out = Inr (ca, co) \<and>
     length ca = length params \<and> length co = length params \<and>
     main_filter ops keys_all params_id_all params_id_out uniq_n_all uniq_n_out = Inr (a1, a2, r) \<and>
     length (fraction_cnt_all a1) = length (full_params a1) \<and>
     length (fraction_cnt_out a1) = length (full_params a1) \<and>
     length (fraction_cnt_all a2) = length (full_params a2) \<and>
     length (fraction_cnt_out a2) = length (full_params a2) \<and>
     length r = length (full_params a2) \<and>
     full_params a1 = map (nth params) [i \<leftarrow> [0..<length params]. \<not> (ca ! i = 1 \<and> co ! i = 1)] \<and>
     fraction_cnt_all a1 = map (nth (map (\<lambda>n. fl_true_divide ops n uniq_n_all) ca))
        [i \<leftarrow> [0..<length params]. \<not> (ca ! i = 1 \<and> co ! i = 1)] \<and>
     fraction_cnt_out a1 = map (nth (map (\<lambda>n. fl_true_divide ops n uniq_n_out) co))
        [i \<leftarrow> [0..<length params]. \<not> (ca ! i = 1 \<and> co ! i = 1)] \<and>
     full_params a2 = map (nth (full_params a1)) (np_nonzero ops (fraction_cnt_out a1)) \<and>
     fraction_cnt_all a2 = map (nth (fraction_cnt_all a1)) (np_nonzero ops (fraction_cnt_out a1)) \<and>
     fraction_cnt_out a2 = map (nth (fraction_cnt_out a1)) (np_nonzero ops (fraction_cnt_out a1))"
    apply (rule exI[of _ ca], rule exI[of _ co])
    apply (rule exI[of _ a1], rule exI[of _ a2], rule exI[of _ r])
    apply (intro conjI)
    apply (rule c la lo mf l1 l2 lr f1 f2)+
    done
qed

theorem aligned_arrays_witness:
  "\<exists>a1 a2 r. main_filter exact_ops [''b1'', ''a2'', ''a1''] example_params_id_all example_params_id_out 5 2
       = Inr (a1, a2, r) \<and>
     sort_py natural_keys [''b1'', ''a2'', ''a1''] = Inr [''a1'', ''a2'', ''b1''] \<and>
     full_params a1 = [''a2'', ''b1''] \<and>
     length (fraction_cnt_all a1) = length (full_params a1) \<and>
     length (fraction_cnt_out a1) = length (full_params a1) \<and>
     length (fraction_cnt_all a2) = length (full_params a2) \<and>
     length (fraction_cnt_out a2) = length (full_params a2) \<and>
     length r = length (full_params a2)"
proof -
  have h: "set [''b1'', ''a2'', ''a1''] \<subseteq> dom example_params_id_all"
    by (simp add: example_params_id_all_def)
  have ha: "\<forall>x\<in>set [''b1'', ''a2'', ''a1'']. \<forall>c\<in>set x. py_isdigit c \<longrightarrow> isdigit c"
    by (simp add: py_isdigit_def isdigit_def)
  note t = aligned_arrays[OF h, where ops = exact_ops and params_id_out = example_params_id_out
      and uniq_n_all = 5 and uniq_n_out = 2]
  from t[THEN conjunct2, THEN mp, OF ha] obtain sorted_params
    where sp: "sort_py natural_keys [''b1'', ''a2'', ''a1''] = Inr sorted_params" by (elim exE)
  have sp': "sort_py natural_keys [''b1'', ''a2'', ''a1''] = Inr [''a1'', ''a2'', ''b1'']"
    by (rule example_sorted)
  from t[THEN conjunct1, THEN mp, OF sp'] obtain ca co a1 a2 r
    where c: "count_mols_by_param [''a1'', ''a2'', ''b1''] example_params_id_all example_params_id_out = Inr (ca, co)"
      and mf: "main_filter exact_ops [''b1'', ''a2'', ''a1''] example_params_id_all example_params_id_out 5 2
         = Inr (a1, a2, r)"
      and l: "length (fraction_cnt_all a1) = length (full_params a1)"
        "length (fraction_cnt_out a1) = length (full_params a1)"
        "length (fraction_cnt_all a2) = length (full_params a2)"
        "length (fraction_cnt_out a2) = length (full_params a2)"
        "length r = length (full_params a2)"
      and f: "full_params a1 = map (nth [''a1'', ''a2'', ''b1''])
         [i \<leftarrow> [0..<length [''a1'', ''a2'', ''b1'']]. \<not> (ca ! i = 1 \<and> co ! i = 1)]"
    by (elim exE conjE)
  from c[unfolded example_counts] have cc: "ca = [1, 1, 5]" "co = [1, 0, 1]" by simp_all
  have "full_params a1 = [''a2'', ''b1'']"
    unfolding f cc by (simp add: upt_rec)
  with mf l sp' show ?thesis
    by (intro exI[of _ a1] exI[of _ a2] exI[of _ r] conjI)
qed

section \<open>Properties of \<open>get_parameters\<close>\<close>

lemma del_all_append:
  "del_all ys ds = Inr r \<Longrightarrow> del_all (ys @ zs) ds = Inr (r @ zs)"
proof (induction ds arbitrary: ys)
  case Nil
  then show ?case by simp
next
  case (Cons d ds)
  from Cons.prems have d: "d < length ys"
    and r: "del_all (take d ys @ drop (Suc d) ys) ds = Inr r"
    by (auto simp: py_del_def split: if_splits)
  from d have "py_del (ys @ zs) d = Inr ((take d ys @ drop (Suc d) ys) @ zs)"
    by (simp add: py_del_def)
  with Cons.IH[OF r] show ?case by simp
qed

lemma idx_of_duplicates_snoc:
  "idx_of_duplicates (smis @ [s]) =
     idx_of_duplicates smis @ (if s \<in> set smis then [length smis] else [])"
proof -
  have "[idx \<leftarrow> [0..<length smis]. (smis @ [s]) ! idx \<in> set (take idx (smis @ [s]))] =
      [idx \<leftarrow> [0..<length smis]. smis ! idx \<in> set (take idx smis)]"
    by (rule filter_cong) (auto simp: nth_append)
  then show ?thesis by (simp add: idx_of_duplicates_def)
qed

lemma idx_of_duplicates_sorted: "sorted (idx_of_duplicates smis)"
  unfolding idx_of_duplicates_def by (rule sorted_wrt_filter) (rule sorted_upt)

lemma sort_idx_of_duplicates: "sort (idx_of_duplicates smis) = idx_of_duplicates smis"
  by (rule sorted_sort_id) (rule idx_of_duplicates_sorted)

lemma first_occurrences_snoc:
  "first_occurrences ts (ys @ [y]) =
     first_occurrences ts ys @ (if ts y \<in> ts ` set ys then [] else [y])"
proof -
  have f: "[i \<leftarrow> [0..<length ys]. ts ((ys @ [y]) ! i) \<notin> ts ` set (take i (ys @ [y]))] =
      [i \<leftarrow> [0..<length ys]. ts (ys ! i) \<notin> ts ` set (take i ys)]"
    by (rule filter_cong) (auto simp: nth_append)
  have m: "map (nth (ys @ [y])) [i \<leftarrow> [0..<length ys]. ts (ys ! i) \<notin> ts ` set (take i ys)] =
      map (nth ys) [i \<leftarrow> [0..<length ys]. ts (ys ! i) \<notin> ts ` set (take i ys)]"
    by (rule map_cong) (auto simp: nth_append)
  have u: "[0..<length (ys @ [y])] = [0..<length ys] @ [length ys]" by simp
  show ?thesis
    unfolding first_occurrences_def u filter_append map_append f m by simp
qed

lemma first_occurrences_Nil: "first_occurrences ts [] = []"
  by (simp add: first_occurrences_def)

lemma remove_duplicates_first:
  "remove_duplicates xs (map ts xs) = Inr (first_occurrences ts xs)"
proof (induction xs rule: rev_induct)
  case Nil
  show ?case
    by (simp add: remove_duplicates_def idx_of_duplicates_def first_occurrences_Nil)
next
  case (snoc y ys)
  have ih: "del_all ys (rev (idx_of_duplicates (map ts ys))) = Inr (first_occurrences ts ys)"
    using snoc by (simp add: remove_duplicates_def sort_idx_of_duplicates)
  have e: "rev (sort (idx_of_duplicates (map ts (ys @ [y])))) =
      (if ts y \<in> ts ` set ys then [length ys] else []) @ rev (idx_of_duplicates (map ts ys))"
    unfolding sort_idx_of_duplicates by (simp add: idx_of_duplicates_snoc)
  show ?case
  proof (cases "ts y \<in> ts ` set ys")
    case True
    have "py_del (ys @ [y]) (length ys) = Inr ys" by (simp add: py_del_def)
    with True ih show ?thesis
      unfolding remove_duplicates_def e by (simp add: first_occurrences_snoc)
  next
    case False
    with del_all_append[OF ih, of "[y]"] show ?thesis
      unfolding remove_duplicates_def e by (simp add: first_occurrences_snoc)
  qed
qed

lemma first_occurrences_set: "ts ` set (first_occurrences ts xs) = ts ` set xs"
  by (induction xs rule: rev_induct) (auto simp: first_occurrences_Nil first_occurrences_snoc)

lemma first_occurrences_subset: "set (first_occurrences ts xs) \<subseteq> set xs"
  by (induction xs rule: rev_induct) (auto simp: first_occurrences_Nil first_occurrences_snoc)

lemma first_occurrences_distinct: "distinct (map ts (first_occurrences ts xs))"
proof (induction xs rule: rev_induct)
  case Nil
  show ?case by (simp add: first_occurrences_Nil)
next
  case (snoc y ys)
  then show ?case
    using first_occurrences_set[of ts ys] by (auto simp: first_occurrences_snoc)
qed

lemma deletion_order_descending:
  "sorted_wrt (\<lambda>a b. a > b) (rev (sort (idx_of_duplicates smis)))"
proof -
  have "sorted_wrt (<) (idx_of_duplicates smis)"
    by (simp add: idx_of_duplicates_def strict_sorted_iff[symmetric] sorted_wrt_filter)
  then show ?thesis by (simp add: sort_idx_of_duplicates sorted_wrt_rev)
qed



lemma py_dict_distinct: "distinct (map fst (py_dict ps))"
proof -
  have "distinct (map fst d0) \<Longrightarrow> distinct (map fst (foldl (\<lambda>d (k, v). od_set k v d) d0 ps))" for d0
    by (induction ps arbitrary: d0) (auto simp: od_set_distinct split: prod.splits)
  from this[of "[]"] show ?thesis by (simp add: py_dict_def)
qed




lemma convert_mols_total:
  "\<forall>(k, e)\<in>set d. \<exists>m. from_openeye tk (mol_structure e) True = Inr m \<Longrightarrow>
     \<exists>ms. convert_mols tk d = Inr ms"
  by (induction d) (auto split: sum.splits)

lemma convert_mols_error:
  "i < length d \<Longrightarrow> from_openeye tk (mol_structure (snd (d ! i))) True = Inl e \<Longrightarrow>
     \<forall>j<i. \<exists>m. from_openeye tk (mol_structure (snd (d ! j))) True = Inr m \<Longrightarrow>
     convert_mols tk d = Inl e"
proof (induction d arbitrary: i)
  case Nil
  then show ?case by simp
next
  case (Cons p d)
  obtain k en where p: "p = (k, en)" by (cases p)
  show ?case
  proof (cases i)
    case 0
    with Cons.prems show ?thesis by (simp add: p)
  next
    case (Suc n)
    from Cons.prems(3) Suc obtain m where m: "from_openeye tk (mol_structure en) True = Inr m"
      by (auto simp: p dest: spec[of _ 0])
    have "\<forall>j<n. \<exists>m. from_openeye tk (mol_structure (snd (d ! j))) True = Inr m"
    proof (intro allI impI)
      fix j assume "j < n"
      with Cons.prems(3) Suc have "\<exists>m. from_openeye tk (mol_structure (snd ((p # d) ! Suc j))) True = Inr m"
        by (auto simp del: nth_Cons_Suc)
      then show "\<exists>m. from_openeye tk (mol_structure (snd (d ! j))) True = Inr m" by simp
    qed
    from Cons.IH[of n, OF _ _ this] Cons.prems(1,2) Suc have "convert_mols tk d = Inl e" by simp
    with m show ?thesis by (simp add: p)
  qed
qed

lemma convert_mols_flag:
  "convert_mols (tk\<lparr>from_openeye := \<lambda>c allow. from_openeye tk c True\<rparr>) d = convert_mols tk d"
  by (induction d) (auto split: sum.splits)

text \<open>
  Claim C6. For every input mapping, \<open>get_parameters\<close> passes to the parameter
  assignment exactly the converted molecules at the indices where a canonical SMILES occurs
  for the first time, in their original order, and returns what the assignment returns for
  them. The deduplication itself never raises; the SMILES of the molecules it keeps are
  distinct and are all the SMILES of the input; the indices are deleted from the highest to
  the lowest.
\<close>

theorem dedup_keeps_first:
  "get_parameters tk mols_dict ffxml =
     (case ForceField tk ffxml of
        Inl e \<Rightarrow> Inl e
      | Inr ff \<Rightarrow>
          (case convert_mols tk mols_dict of
             Inl e \<Rightarrow> Inl e
           | Inr off_mols \<Rightarrow>
               (case get_molecule_parameterIDs tk
                       (map (nth off_mols)
                          [i \<leftarrow> [0..<length off_mols].
                             to_smiles tk (off_mols ! i) \<notin> to_smiles tk ` set (take i off_mols)])
                       ff of
                  Inl e \<Rightarrow> Inl e
                | Inr (parameters_by_molecule, parameters_by_ID) \<Rightarrow>
                    Inr (parameters_by_molecule, parameters_by_ID,
                         py_dict (zip (map (to_smiles tk) off_mols) (map fst mols_dict)))))) \<and>
   (\<exists>retained. remove_duplicates ms (map ts ms) = Inr retained \<and>
      retained = map (nth ms) [i \<leftarrow> [0..<length ms]. ts (ms ! i) \<notin> ts ` set (take i ms)] \<and>
      distinct (map ts retained) \<and> ts ` set retained = ts ` set ms \<and>
      sorted_wrt (\<lambda>a b. a > b) (rev (sort (idx_of_duplicates (map ts ms)))))"
proof (rule conjI)
  show "get_parameters tk mols_dict ffxml =
     (case ForceField tk ffxml of
        Inl e \<Rightarrow> Inl e
      | Inr ff \<Rightarrow>
          (case convert_mols tk mols_dict of
             Inl e \<Rightarrow> Inl e
           | Inr off_mols \<Rightarrow>
               (case get_molecule_parameterIDs tk
                       (map (nth off_mols)
                          [i \<leftarrow> [0..<length off_mols].
                             to_smiles tk (off_mols ! i) \<notin> to_smiles tk ` set (take i off_mols)])
                       ff of
                  Inl e \<Rightarrow> Inl e
                | Inr (parameters_by_molecule, parameters_by_ID) \<Rightarrow>
                    Inr (parameters_by_molecule, parameters_by_ID,
                         py_dict (zip (map (to_smiles tk) off_mols) (map fst mols_dict))))))"
    by (simp add: get_parameters_def Let_def remove_duplicates_first first_occurrences_def
        split: sum.splits prod.splits)
next
  show "\<exists>retained. remove_duplicates ms (map ts ms) = Inr retained \<and>
      retained = map (nth ms) [i \<leftarrow> [0..<length ms]. ts (ms ! i) \<notin> ts ` set (take i ms)] \<and>
      distinct (map ts retained) \<and> ts ` set retained = ts ` set ms \<and>
      sorted_wrt (\<lambda>a b. a > b) (rev (sort (idx_of_duplicates (map ts ms))))"
    using remove_duplicates_first[of ms ts] first_occurrences_distinct[of ts ms]
      first_occurrences_set[of ts ms] deletion_order_descending[of "map ts ms"]
    by (simp add: first_occurrences_def)
qed

theorem dedup_keeps_first_witness:
  "get_parameters echo_toolkit example_mols_dict ''ff.offxml'' =
     Inr ([(''CCO'', True), (''CC'', True)], 2, [(''CCO'', ''k3''), (''CC'', ''k2'')]) \<and>
   remove_duplicates [(''CCO'', True), (''CC'', True), (''CCO'', False), (''C'', True), (''CC'', False)]
       (map fst [(''CCO'', True), (''CC'', True), (''CCO'', False), (''C'', True), (''CC'', False)]) =
     Inr [(''CCO'', True), (''CC'', True), (''C'', True)]"
proof (rule conjI)
  show "get_parameters echo_toolkit example_mols_dict ''ff.offxml'' =
     Inr ([(''CCO'', True), (''CC'', True)], 2, [(''CCO'', ''k3''), (''CC'', ''k2'')])"
    by (subst dedup_keeps_first[THEN conjunct1]) code_simp
next
  show "remove_duplicates [(''CCO'', True), (''CC'', True), (''CCO'', False), (''C'', True), (''CC'', False)]
       (map fst [(''CCO'', True), (''CC'', True), (''CCO'', False), (''C'', True), (''CC'', False)]) =
     Inr [(''CCO'', True), (''CC'', True), (''C'', True)]"
    using dedup_keeps_first[THEN conjunct2,
        of "[(''CCO'', True), (''CC'', True), (''CCO'', False), (''C'', True), (''CC'', False)]" fst]
    by (simp add: upt_rec)
qed





text \<open>
  Claim C7, as the specification states it, fails: \<open>get_parameters\<close> has no argument
  for the stereochemistry flag, and a molecule that the conversion rejects for its undefined
  stereochemistry when the flag is off goes through.
\<close>

theorem stereo_flag_counterexample:
  "from_openeye example_toolkit (mol_structure (example_entry ''CCO'' False)) False =
     Inl UndefinedStereochemistryError \<and>
   get_parameters example_toolkit [(''k3'', example_entry ''CCO'' False)] ''ff.offxml'' =
     Inr ([''CCO''], 1, [(''CCO'', ''k3'')])"
  by code_simp


lemma get_parameters_flag:
  "get_parameters (tk\<lparr>from_openeye := \<lambda>c allow. from_openeye tk c True\<rparr>) mols_dict ffxml =
     get_parameters tk mols_dict ffxml"
  by (simp add: get_parameters_def convert_mols_flag Let_def split: sum.splits prod.splits)

text \<open>
  Claim C7, amended. \<open>get_parameters\<close> only ever converts with
  \<open>allow_undefined_stereo=True\<close>: its result is that of a toolkit whose conversion
  ignores the flag and always allows. An exception that the conversion raises even so, at
  the first molecule that fails, is the result of \<open>get_parameters\<close>.
\<close>

theorem stereo_always_tolerated:
  "get_parameters (tk\<lparr>from_openeye := \<lambda>c allow. from_openeye tk c True\<rparr>) mols_dict ffxml =
     get_parameters tk mols_dict ffxml \<and>
   (ForceField tk ffxml = Inr ff \<and> i < length mols_dict \<and>
    from_openeye tk (mol_structure (snd (mols_dict ! i))) True = Inl e \<and>
    (\<forall>j<i. \<exists>m. from_openeye tk (mol_structure (snd (mols_dict ! j))) True = Inr m) \<longrightarrow>
      get_parameters tk mols_dict ffxml = Inl e)"
proof (intro conjI impI)
  show "get_parameters (tk\<lparr>from_openeye := \<lambda>c allow. from_openeye tk c True\<rparr>) mols_dict ffxml =
     get_parameters tk mols_dict ffxml"
    by (rule get_parameters_flag)
next
  assume a: "ForceField tk ffxml = Inr ff \<and> i < length mols_dict \<and>
    from_openeye tk (mol_structure (snd (mols_dict ! i))) True = Inl e \<and>
    (\<forall>j<i. \<exists>m. from_openeye tk (mol_structure (snd (mols_dict ! j))) True = Inr m)"
  then have "convert_mols tk mols_dict = Inl e"
    by (intro convert_mols_error[of i]) simp_all
  with a show "get_parameters tk mols_dict ffxml = Inl e"
    by (simp add: get_parameters_def)
qed


theorem stereo_always_tolerated_witness:
  "get_parameters failing_toolkit
      [(''k1'', example_entry ''CCO'' False), (''k2'', example_entry [] True)] ''ff.offxml'' =
     Inl ToolkitError \<and>
   get_parameters (failing_toolkit\<lparr>from_openeye := \<lambda>c allow. from_openeye failing_toolkit c True\<rparr>)
      [(''k1'', example_entry ''CCO'' False), (''k2'', example_entry [] True)] ''ff.offxml'' =
     Inl ToolkitError"
proof -
  have h: "ForceField failing_toolkit ''ff.offxml'' = Inr ''ff.offxml'' \<and>
      1 < length [(''k1'', example_entry ''CCO'' False), (''k2'', example_entry [] True)] \<and>
      from_openeye failing_toolkit (mol_structure
        (snd ([(''k1'', example_entry ''CCO'' False), (''k2'', example_entry [] True)] ! 1))) True =
        Inl ToolkitError"
    by code_simp
  have h2: "\<forall>j<1. \<exists>m. from_openeye failing_toolkit (mol_structure
        (snd ([(''k1'', example_entry ''CCO'' False), (''k2'', example_entry [] True)] ! j))) True = Inr m"
    by (auto simp: failing_toolkit_def example_toolkit_def example_entry_def)
  note t = stereo_always_tolerated[of failing_toolkit
      "[(''k1'', example_entry ''CCO'' False), (''k2'', example_entry [] True)]" "''ff.offxml''"
      "''ff.offxml''" 1 ToolkitError]
  from t h h2 have r: "get_parameters failing_toolkit
      [(''k1'', example_entry ''CCO'' False), (''k2'', example_entry [] True)] ''ff.offxml'' =
     Inl ToolkitError"
    by blast
  from t have "get_parameters (failing_toolkit\<lparr>from_openeye := \<lambda>c allow. from_openeye failing_toolkit c True\<rparr>)
      [(''k1'', example_entry ''CCO'' False), (''k2'', example_entry [] True)] ''ff.offxml'' =
     get_parameters failing_toolkit
      [(''k1'', example_entry ''CCO'' False), (''k2'', example_entry [] True)] ''ff.offxml''"
    by (rule conjunct1)
  with r show ?thesis by simp
qed

section \<open>Properties of the two command lines\<close>

text \<open>
  Claim C8, as the specification states it, fails in the kind of the error: with a readable
  input and an existing output file \<open>main\<close> raises \<open>FileExistsError\<close>, which is not
  the file-not-found condition.
\<close>

theorem overwrite_error_counterexample:
  "minimize_main \<lparr>can_read = (\<lambda>f. True), path_exists = (\<lambda>f. True), can_write = (\<lambda>f. True)\<rparr>
      example_engines ''in.sdf'' ''out.sdf'' None ''mmff94'' =
     \<lparr>raised = Some FileExistsError, processed = [], written = []\<rparr> \<and>
   Some FileExistsError \<noteq> Some FileNotFoundError"
  by (simp add: minimize_main_def)

text \<open>
  Claim C8, amended. If the input cannot be opened, \<open>main\<close> raises
  \<open>FileNotFoundError\<close>; if it can and the output file already exists, \<open>main\<close>
  raises \<open>FileExistsError\<close>; in both cases no molecule is processed and nothing is
  written. With a readable input and a fresh, writable output file the loop goes through
  the molecules of the input.
\<close>

theorem refuses_to_overwrite:
  "(\<not> can_read fs infile \<longrightarrow>
      minimize_main fs eng infile outfile ffxml minimizer =
        \<lparr>raised = Some FileNotFoundError, processed = [], written = []\<rparr>) \<and>
   (can_read fs infile \<and> path_exists fs outfile \<longrightarrow>
      minimize_main fs eng infile outfile ffxml minimizer =
        \<lparr>raised = Some FileExistsError, processed = [], written = []\<rparr>) \<and>
   (can_read fs infile \<and> \<not> path_exists fs outfile \<and> can_write fs outfile \<longrightarrow>
      raised (minimize_main fs eng infile outfile ffxml minimizer) = None \<and>
      processed (minimize_main fs eng infile outfile ffxml minimizer) = GetOEMols eng infile)"
  by (simp add: minimize_main_def Let_def)

theorem refuses_to_overwrite_witness:
  "minimize_main \<lparr>can_read = (\<lambda>f. False), path_exists = (\<lambda>f. True), can_write = (\<lambda>f. True)\<rparr>
      example_engines ''in.sdf'' ''out.sdf'' None ''mmff94'' =
     \<lparr>raised = Some FileNotFoundError, processed = [], written = []\<rparr> \<and>
   minimize_main \<lparr>can_read = (\<lambda>f. f = ''in.sdf''), path_exists = (\<lambda>f. f = ''out.sdf''), can_write = (\<lambda>f. True)\<rparr>
      example_engines ''in.sdf'' ''out.sdf'' None ''mmff94'' =
     \<lparr>raised = Some FileExistsError, processed = [], written = []\<rparr> \<and>
   processed (minimize_main \<lparr>can_read = (\<lambda>f. True), path_exists = (\<lambda>f. False), can_write = (\<lambda>f. True)\<rparr>
      example_engines ''in.sdf'' ''out.sdf'' None ''mmff94'') = [1, 2]"
  using
    refuses_to_overwrite[of "\<lparr>can_read = (\<lambda>f. False), path_exists = (\<lambda>f. True), can_write = (\<lambda>f. True)\<rparr>"
      "''in.sdf''" example_engines "''out.sdf''" None "''mmff94''"]
    refuses_to_overwrite[of "\<lparr>can_read = (\<lambda>f. f = ''in.sdf''), path_exists = (\<lambda>f. f = ''out.sdf''), can_write = (\<lambda>f. True)\<rparr>"
      "''in.sdf''" example_engines "''out.sdf''" None "''mmff94''"]
    refuses_to_overwrite[of "\<lparr>can_read = (\<lambda>f. True), path_exists = (\<lambda>f. False), can_write = (\<lambda>f. True)\<rparr>"
      "''in.sdf''" example_engines "''out.sdf''" None "''mmff94''"]
  by (simp add: example_engines_def)

text \<open>
  Claim C9, as the specification states it, fails: a namespace with both selectors set is
  accepted, and \<open>main\<close> is called with the metric type RMSD.
\<close>

theorem both_selectors_counterexample:
  "main_call (example_args True True) =
     Inr (''refdata_parsley.sdf'', ''openff_unconstrained-1.0.0-RC2.offxml'', 1,
          ''RMSD to qcarchive.sdf'', ''SMILES QCArchive'', ''RMSD'', None)"
  by (simp add: main_call_def select_metric_type_def example_args_def)

text \<open>
  Claim C9, amended. The selectors are independent: \<open>--rmsd\<close> selects RMSD whether
  or not \<open>--tfd\<close> is given, \<open>--tfd\<close> alone selects TFD, and with neither the call of
  \<open>main\<close> raises \<open>NameError\<close>; the selected metric type is the one passed to
  \<open>main\<close>.
\<close>

theorem selector_precedence:
  "(arg_rmsd a \<longrightarrow> select_metric_type a = Inr ''RMSD'') \<and>
   (\<not> arg_rmsd a \<and> arg_tfd a \<longrightarrow> select_metric_type a = Inr ''TFD'') \<and>
   (\<not> arg_rmsd a \<and> \<not> arg_tfd a \<longrightarrow> select_metric_type a = Inl NameError \<and> main_call a = Inl NameError) \<and>
   (\<forall>mt. select_metric_type a = Inr mt \<longrightarrow>
      main_call a = Inr (arg_infile a, arg_ffxml a, arg_cutoff a, arg_tag a, arg_tag_smiles a, mt, arg_inpickle a))"
  by (simp add: select_metric_type_def main_call_def)

theorem selector_precedence_witness:
  "select_metric_type (example_args True False) = Inr ''RMSD'' \<and>
   select_metric_type (example_args True True) = Inr ''RMSD'' \<and>
   select_metric_type (example_args False True) = Inr ''TFD'' \<and>
   main_call (example_args False False) = Inl NameError"
  using selector_precedence[of "example_args True False"] selector_precedence[of "example_args True True"]
    selector_precedence[of "example_args False True"] selector_precedence[of "example_args False False"]
  by (simp add: example_args_def)

end
